theory Spec2Isabelle
  imports Main "HOL-Library.Multiset" "HOL-Library.Product_Lexorder"
begin

section \<open>Python values used by the bot\<close>

text \<open>
  A str is the list of its code points, natural numbers; \<open>ord c\<close> is the code point
  of a character written in this file and \<open>lit s\<close> the str of a literal. Python's
  integers are unbounded: \<^typ>\<open>int\<close>. An exception is a value \<open>Inl e\<close> of a sum type.
\<close>

type_synonym code_point = nat

type_synonym str = "code_point list"

abbreviation ord :: "char \<Rightarrow> code_point" where
  "ord \<equiv> of_char"

abbreviation lit :: "string \<Rightarrow> str" where
  "lit \<equiv> map of_char"

datatype py_error = IndexError | ValueError | TypeError

definition bind :: "py_error + 'a \<Rightarrow> ('a \<Rightarrow> py_error + 'b) \<Rightarrow> py_error + 'b" where
  "bind r f = (case r of Inl e \<Rightarrow> Inl e | Inr v \<Rightarrow> f v)"

text \<open>
  The decimal digits, which \<open>\d\<close> of \<open>re\<close> matches in a \<open>str\<close> pattern and \<open>int\<close> reads,
  are the characters of Unicode's category Nd. They come in runs of ten, in the order of
  their values: \<open>decimal_zeros\<close> lists the first code point of each run in the character
  database of Unicode 14.0; \<open>0\<close> to \<open>9\<close> are the first run, the fullwidth digits start at
  65296. \<open>digit_value\<close> is the value of a digit, and -1 for any other character.
\<close>

definition decimal_zeros :: "code_point list" where
  "decimal_zeros =
     [48, 1632, 1776, 1984, 2406, 2534, 2662, 2790, 2918, 3046, 3174, 3302, 3430, 3558, 3664,
      3792, 3872, 4160, 4240, 6112, 6160, 6470, 6608, 6784, 6800, 6992, 7088, 7232, 7248,
      42528, 43216, 43264, 43472, 43504, 43600, 44016, 65296, 66720, 68912, 69734, 69872,
      69942, 70096, 70384, 70736, 70864, 71248, 71360, 71472, 71904, 72016, 72784, 73040,
      73120, 92768, 92864, 93008, 120782, 120792, 120802, 120812, 120822, 123200, 123632,
      125264, 130032]"

definition zero_of :: "code_point \<Rightarrow> code_point option" where
  "zero_of c = find (\<lambda>z. z \<le> c \<and> c < z + 10) decimal_zeros"

definition is_digit :: "code_point \<Rightarrow> bool" where
  "is_digit c = (zero_of c \<noteq> None)"

definition digit_value :: "code_point \<Rightarrow> int" where
  "digit_value c = (case zero_of c of Some z \<Rightarrow> int (c - z) | None \<Rightarrow> - 1)"

text \<open>
  The white space that \<open>str.strip\<close> removes (the characters of \<open>str.isspace\<close>). \<open>int\<close>
  drops the same characters around its literal, the four separators 28 to 31 apart.
\<close>

definition spaces :: "code_point list" where
  "spaces = [9, 10, 11, 12, 13, 28, 29, 30, 31, 32, 133, 160, 5760, 8192, 8193, 8194, 8195,
             8196, 8197, 8198, 8199, 8200, 8201, 8202, 8232, 8233, 8239, 8287, 12288]"

definition is_space :: "code_point \<Rightarrow> bool" where
  "is_space c = (c \<in> set spaces)"

definition is_int_space :: "code_point \<Rightarrow> bool" where
  "is_int_space c = (is_space c \<and> \<not> (28 \<le> c \<and> c \<le> 31))"

text \<open>\<open>xs[i]\<close>: a negative index counts from the end, an index out of range raises.\<close>

definition py_index :: "'a list \<Rightarrow> int \<Rightarrow> py_error + 'a" where
  "py_index xs i =
     (if 0 \<le> i \<and> i < int (length xs) then Inr (xs ! nat i)
      else if i < 0 \<and> - int (length xs) \<le> i then Inr (xs ! nat (int (length xs) + i))
      else Inl IndexError)"

text \<open>\<open>s.strip()\<close>, \<open>s.replace(old, new)\<close> for one-character arguments, \<open>s.ljust(width, fill)\<close>.\<close>

definition strip_by :: "(code_point \<Rightarrow> bool) \<Rightarrow> str \<Rightarrow> str" where
  "strip_by blank s = rev (dropWhile blank (rev (dropWhile blank s)))"

definition strip :: "str \<Rightarrow> str" where
  "strip s = strip_by is_space s"

definition replace :: "code_point \<Rightarrow> code_point \<Rightarrow> str \<Rightarrow> str" where
  "replace old new s = map (\<lambda>c. if c = old then new else c) s"

definition ljust :: "nat \<Rightarrow> code_point \<Rightarrow> str \<Rightarrow> str" where
  "ljust width fill s = s @ replicate (width - length s) fill"

text \<open>
  \<open>int(s)\<close> in base 10: white space around the literal is dropped, one sign may lead,
  single underscores may stand between digits; anything else raises \<open>ValueError\<close>.
\<close>

definition decimal_value :: "str \<Rightarrow> int" where
  "decimal_value ds = foldl (\<lambda>acc c. 10 * acc + digit_value c) 0 ds"

fun underscores_ok :: "str \<Rightarrow> bool" where
  "underscores_ok [] = False"
| "underscores_ok [c] = is_digit c"
| "underscores_ok (c # d # r) =
     (is_digit c \<and> (if d = ord CHR ''_'' then underscores_ok r else underscores_ok (d # r)))"

definition py_int :: "str \<Rightarrow> py_error + int" where
  "py_int s =
     (let t = strip_by is_int_space s;
          negative = (t \<noteq> [] \<and> hd t = ord CHR ''-'');
          body = (if t \<noteq> [] \<and> (hd t = ord CHR ''-'' \<or> hd t = ord CHR ''+'') then tl t else t)
      in if underscores_ok body
         then (let v = decimal_value (filter is_digit body) in Inr (if negative then - v else v))
         else Inl ValueError)"

text \<open>\<open>str(n)\<close> of an integer, and the format specification \<open>0{width}d\<close> of an f-str.\<close>

definition digit_char :: "nat \<Rightarrow> code_point" where
  "digit_char d = ord CHR ''0'' + d"

fun digits_of :: "nat \<Rightarrow> str" where
  "digits_of n = (if n < 10 then [digit_char n] else digits_of (n div 10) @ [digit_char (n mod 10)])"

declare digits_of.simps [simp del]

definition py_str :: "int \<Rightarrow> str" where
  "py_str n = (if n < 0 then ord CHR ''-'' # digits_of (nat (- n)) else digits_of (nat n))"

definition format_0d :: "nat \<Rightarrow> int \<Rightarrow> str" where
  "format_0d width n =
     (if n < 0
      then ord CHR ''-'' # replicate (width - 1 - length (digits_of (nat (- n)))) (ord CHR ''0'')
             @ digits_of (nat (- n))
      else replicate (width - length (digits_of (nat n))) (ord CHR ''0'') @ digits_of (nat n))"

section \<open>The regular expressions of \<open>parse_time\<close>\<close>

text \<open>
  The three patterns are sequences of two kinds of pieces: a captured greedy repetition
  \<open>(a{lo,hi})\<close> of a one-character class (\<open>\d+\<close> is \<open>Group Digit 1 None\<close>), and a single
  character of a class outside any group. \<open>re_match\<close> is \<open>re.match\<close> for such a pattern
  written between \<open>^\<close> and \<open>$\<close>: it matches from the start of the str, a repetition
  takes the longest run first and gives characters back one at a time when the rest
  fails, and \<open>$\<close> stands at the end of the str or before a newline that ends it. The
  result is \<open>match.groups()\<close>, or \<open>None\<close>.
\<close>

datatype atom = Digit | OneOf str

fun accepts :: "atom \<Rightarrow> code_point \<Rightarrow> bool" where
  "accepts Digit c = is_digit c"
| "accepts (OneOf cs) c = (c \<in> set cs)"

datatype token = Group atom nat "nat option" | Single atom

definition at_end :: "str \<Rightarrow> bool" where
  "at_end s = (s = [] \<or> s = [ord CHR 0x0A])"

fun first_some :: "('a \<Rightarrow> 'b option) \<Rightarrow> 'a list \<Rightarrow> 'b option" where
  "first_some f [] = None"
| "first_some f (x # xs) = (case f x of Some y \<Rightarrow> Some y | None \<Rightarrow> first_some f xs)"

fun re_match :: "token list \<Rightarrow> str \<Rightarrow> str list option" where
  "re_match [] s = (if at_end s then Some [] else None)"
| "re_match (Single a # ts) s =
     (case s of [] \<Rightarrow> None | c # r \<Rightarrow> if accepts a c then re_match ts r else None)"
| "re_match (Group a lo hi # ts) s =
     (let run = length (takeWhile (accepts a) s);
          most = (case hi of None \<Rightarrow> run | Some h \<Rightarrow> min h run)
      in first_some (\<lambda>n. map_option ((#) (take n s)) (re_match ts (drop n s)))
           (rev [lo ..< Suc most]))"

section \<open>Scoring table\<close>

definition point_values :: "int list" where
  "point_values = [25, 18, 15, 12, 10, 8, 6, 4, 2, 1]"

definition get_points_for_position :: "int \<Rightarrow> py_error + int" where
  "get_points_for_position position =
     (if position = 0 then Inr 0
      else if position \<le> int (length point_values) then py_index point_values (position - 1)
      else Inr 1)"

section \<open>Time codec\<close>

text \<open>\<open>^(\d+):(\d{1,2})[:.](\d{1,3})$\<close>, \<open>^(\d+)\.(\d{1,3})$\<close> and \<open>^(\d+)$\<close>.\<close>

definition pattern_mss :: "token list" where
  "pattern_mss = [Group Digit 1 None, Single (OneOf (lit '':'')), Group Digit 1 (Some 2),
                  Single (OneOf (lit '':.'')), Group Digit 1 (Some 3)]"

definition pattern_ss :: "token list" where
  "pattern_ss = [Group Digit 1 None, Single (OneOf (lit ''.'')), Group Digit 1 (Some 3)]"

definition pattern_raw :: "token list" where
  "pattern_raw = [Group Digit 1 None]"

text \<open>
  \<open>parse_time\<close> returns \<open>Inr (Some ms)\<close> for a value, \<open>Inr None\<close> for Python's \<open>None\<close>, and
  \<open>Inl e\<close> where a call of \<open>int\<close> or the unpacking of the groups would raise.
\<close>

definition parse_time :: "str \<Rightarrow> py_error + int option" where
  "parse_time time_str0 =
     (let time_str = replace (ord CHR '','') (ord CHR ''.'') (strip time_str0) in
      case re_match pattern_mss time_str of
        Some groups \<Rightarrow>
          (case groups of
             [minutes, seconds, ms0] \<Rightarrow>
               (let ms = take 3 (ljust 3 (ord CHR ''0'') ms0) in
                bind (py_int minutes) (\<lambda>m. bind (py_int seconds) (\<lambda>s. bind (py_int ms) (\<lambda>f.
                  Inr (Some (m * 60000 + s * 1000 + f))))))
           | _ \<Rightarrow> Inl ValueError)
      | None \<Rightarrow>
     (case re_match pattern_ss time_str of
        Some groups \<Rightarrow>
          (case groups of
             [seconds, ms0] \<Rightarrow>
               (let ms = take 3 (ljust 3 (ord CHR ''0'') ms0) in
                bind (py_int seconds) (\<lambda>s. bind (py_int ms) (\<lambda>f.
                  Inr (Some (s * 1000 + f)))))
           | _ \<Rightarrow> Inl ValueError)
      | None \<Rightarrow>
     (case re_match pattern_raw time_str of
        Some groups \<Rightarrow> bind (py_int time_str) (\<lambda>v. Inr (Some v))
      | None \<Rightarrow> Inr None)))"

definition format_time :: "int \<Rightarrow> str" where
  "format_time ms =
     (if ms \<le> 0 then lit ''00:00.000''
      else (let minutes = ms div 60000;
                seconds = (ms mod 60000) div 1000;
                milliseconds = ms mod 1000
            in format_0d 2 minutes @ lit '':'' @ format_0d 2 seconds @ lit ''.''
               @ format_0d 3 milliseconds))"

section \<open>The record store\<close>

text \<open>
  Modelled from the spec: the store is a remote database whose tables and keys are not in
  the source; only the calls on it are. After sections 3 and 6 of the specification
  there is one player row for each \<open>discord_id\<close> and one time row for each pair
  (\<open>discord_id\<close>, \<open>map_number\<close>); \<open>upsert\<close> overwrites the row with the same key where there
  is one and adds a row otherwise, and performs no validation. A \<open>select\<close> returns the
  rows in table order. The query \<open>select('*, players(tm_username)')\<close> of
  \<open>get_map_leaderboard\<close> embeds in each time row the player row with the same
  \<open>discord_id\<close>, or null where there is none.
\<close>

record player_row =
  p_discord_id :: str
  p_tm_username :: str

record time_row =
  t_discord_id :: str
  t_map_number :: int
  t_time_ms :: int

record store =
  players_table :: "player_row list"
  times_table :: "time_row list"

definition empty_store :: store where
  "empty_store = \<lparr>players_table = [], times_table = []\<rparr>"

definition upsert_player :: "store \<Rightarrow> player_row \<Rightarrow> store" where
  "upsert_player st row =
     (if \<exists>p \<in> set (players_table st). p_discord_id p = p_discord_id row
      then st\<lparr>players_table :=
                map (\<lambda>p. if p_discord_id p = p_discord_id row then row else p) (players_table st)\<rparr>
      else st\<lparr>players_table := players_table st @ [row]\<rparr>)"

definition same_key :: "time_row \<Rightarrow> time_row \<Rightarrow> bool" where
  "same_key a b = (t_discord_id a = t_discord_id b \<and> t_map_number a = t_map_number b)"

definition upsert_time :: "store \<Rightarrow> time_row \<Rightarrow> store" where
  "upsert_time st row =
     (if \<exists>t \<in> set (times_table st). same_key t row
      then st\<lparr>times_table := map (\<lambda>t. if same_key t row then row else t) (times_table st)\<rparr>
      else st\<lparr>times_table := times_table st @ [row]\<rparr>)"

definition select_player :: "store \<Rightarrow> str \<Rightarrow> player_row list" where
  "select_player st did = filter (\<lambda>p. p_discord_id p = did) (players_table st)"

definition select_times_of_player :: "store \<Rightarrow> str \<Rightarrow> time_row list" where
  "select_times_of_player st did = filter (\<lambda>t. t_discord_id t = did) (times_table st)"

record joined_row =
  j_discord_id :: str
  j_time_ms :: int
  j_players :: "str option"

definition select_times_of_map :: "store \<Rightarrow> int \<Rightarrow> joined_row list" where
  "select_times_of_map st map_num =
     map (\<lambda>t. \<lparr>j_discord_id = t_discord_id t, j_time_ms = t_time_ms t,
               j_players = map_option p_tm_username
                 (find (\<lambda>p. p_discord_id p = t_discord_id t) (players_table st))\<rparr>)
       (filter (\<lambda>t. t_map_number t = map_num) (times_table st))"

section \<open>Leaderboard engine\<close>

record leaderboard_row =
  discord_id :: str
  tm_username :: str
  time_ms :: int

text \<open>
  The loop of \<open>get_map_leaderboard\<close>: \<open>entry['players']['tm_username']\<close> raises
  \<open>TypeError\<close> on a null \<open>players\<close>. \<open>sorted\<close> is a stable sort, as \<^const>\<open>sort_key\<close> is.
\<close>

fun leaderboard_rows :: "joined_row list \<Rightarrow> py_error + leaderboard_row list" where
  "leaderboard_rows [] = Inr []"
| "leaderboard_rows (entry # rest) =
     (case j_players entry of
        None \<Rightarrow> Inl TypeError
      | Some name \<Rightarrow>
          bind (leaderboard_rows rest) (\<lambda>rows.
            Inr (\<lparr>discord_id = j_discord_id entry, tm_username = name,
                  time_ms = j_time_ms entry\<rparr> # rows)))"

definition get_map_leaderboard :: "store \<Rightarrow> int \<Rightarrow> py_error + leaderboard_row list" where
  "get_map_leaderboard st map_num =
     bind (leaderboard_rows (select_times_of_map st map_num)) (\<lambda>leaderboard.
       Inr (sort_key time_ms leaderboard))"

text \<open>The loop of \<open>get_player_position\<close> over \<open>enumerate(leaderboard, 1)\<close>.\<close>

fun find_position :: "leaderboard_row list \<Rightarrow> str \<Rightarrow> int \<Rightarrow> int" where
  "find_position [] target i = 0"
| "find_position (entry # rest) target i =
     (if discord_id entry = target then i else find_position rest target (i + 1))"

definition get_player_position :: "store \<Rightarrow> int \<Rightarrow> int \<Rightarrow> py_error + int" where
  "get_player_position st map_num did =
     bind (get_map_leaderboard st map_num) (\<lambda>leaderboard.
       Inr (find_position leaderboard (py_str did) 1))"

record standing =
  s_discord_id :: str
  s_tm_username :: str
  points :: int
  maps_completed :: int

text \<open>The inner loop of \<open>get_overall_standings\<close> over the player's time rows.\<close>

fun sum_points :: "store \<Rightarrow> str \<Rightarrow> time_row list \<Rightarrow> int \<Rightarrow> py_error + int" where
  "sum_points st did [] total_points = Inr total_points"
| "sum_points st did (time_entry # rest) total_points =
     bind (py_int did) (\<lambda>n.
     bind (get_player_position st (t_map_number time_entry) n) (\<lambda>position.
     bind (get_points_for_position position) (\<lambda>pts.
       sum_points st did rest (total_points + pts))))"

text \<open>Its outer loop over the player rows.\<close>

fun standing_rows :: "store \<Rightarrow> player_row list \<Rightarrow> py_error + standing list" where
  "standing_rows st [] = Inr []"
| "standing_rows st (player # rest) =
     (let did = p_discord_id player;
          times_result = select_times_of_player st did
      in bind (sum_points st did times_result 0) (\<lambda>total_points.
         bind (standing_rows st rest) (\<lambda>rows.
           Inr (\<lparr>s_discord_id = did, s_tm_username = p_tm_username player,
                 points = total_points, maps_completed = int (length times_result)\<rparr> # rows))))"

definition get_overall_standings :: "store \<Rightarrow> py_error + standing list" where
  "get_overall_standings st =
     bind (standing_rows st (players_table st)) (\<lambda>standings.
       Inr (sort_key (\<lambda>x. (- points x, - maps_completed x)) standings))"

text \<open>
  The rows that \<open>show_map_leaderboard\<close> displays for a leaderboard: position, name,
  formatted time and, below the first row, the difference to \<open>map_lb[0]\<close>.
\<close>

definition map_view_rows :: "leaderboard_row list \<Rightarrow> (nat \<times> str \<times> str \<times> int option) list" where
  "map_view_rows map_lb =
     map (\<lambda>(i, entry). (i, tm_username entry, format_time (time_ms entry),
            if i = 1 then None else Some (time_ms entry - time_ms (map_lb ! 0))))
       (List.enumerate 1 (take 10 map_lb))"

section \<open>Player commands\<close>

definition COMPETITION_MAPS :: "(int \<times> str) list" where
  "COMPETITION_MAPS = [(1, lit ''ZOOP 01''), (2, lit ''Dirty Swervy 02''), (3, lit ''Cold and Mad 03''),
     (4, lit ''Grassy Guy 04''), (5, lit ''Cold and Mad Pt 2 05'')]"

datatype registration = UsernameTooLong | Registered

definition register_player :: "store \<Rightarrow> int \<Rightarrow> str \<Rightarrow> registration \<times> store" where
  "register_player st author_id trackmania_username =
     (if length trackmania_username > 50 then (UsernameTooLong, st)
      else (Registered, upsert_player st \<lparr>p_discord_id = py_str author_id,
              p_tm_username = trackmania_username\<rparr>))"

text \<open>
  The replies of \<open>submit_time\<close>, under the names the specification gives the failures:
  the four messages sent before any write, the embed of a stored time (player, formatted
  time, position), the reply of the \<open>except\<close> branch, and an exception that leaves the
  command before the \<open>try\<close>.
\<close>

datatype outcome =
    NotRegistered | InvalidMap | InvalidTimeFormat | OutOfRange
  | Submitted str str int | Failed | Raised py_error

definition submit_time :: "store \<Rightarrow> int \<Rightarrow> int \<Rightarrow> str \<Rightarrow> outcome \<times> store" where
  "submit_time st author_id map_num time_str =
     (let result = select_player st (py_str author_id) in
      if result = [] then (NotRegistered, st)
      else if map_num \<notin> set (map fst COMPETITION_MAPS) then (InvalidMap, st)
      else case parse_time time_str of
             Inl e \<Rightarrow> (Raised e, st)
           | Inr None \<Rightarrow> (InvalidTimeFormat, st)
           | Inr (Some ms) \<Rightarrow>
               if \<not> (1000 \<le> ms \<and> ms \<le> 600000) then (OutOfRange, st)
               else (let name = p_tm_username (hd result);
                         st' = upsert_time st \<lparr>t_discord_id = py_str author_id,
                                 t_map_number = map_num, t_time_ms = ms\<rparr>;
                         formatted_time = format_time ms
                     in case get_player_position st' map_num author_id of
                          Inl e \<Rightarrow> (Failed, st')
                        | Inr position \<Rightarrow> (Submitted name formatted_time position, st')))"

text \<open>
  The commands of the bot as steps on the store: \<open>register\<close> and \<open>time\<close> write, the
  others only read.
\<close>

datatype command =
    Register int str | SubmitTime int int str
  | ShowLeaderboard | ShowMap int | ShowMyStats int | ShowHelp

fun run_command :: "store \<Rightarrow> command \<Rightarrow> store" where
  "run_command st (Register author_id name) = snd (register_player st author_id name)"
| "run_command st (SubmitTime author_id map_num time_str) =
     snd (submit_time st author_id map_num time_str)"
| "run_command st ShowLeaderboard = st"
| "run_command st (ShowMap map_num) = st"
| "run_command st (ShowMyStats author_id) = st"
| "run_command st ShowHelp = st"

definition run_commands :: "command list \<Rightarrow> store" where
  "run_commands cmds = foldl run_command empty_store cmds"

section \<open>The specification's words\<close>

text \<open>
  Modelled from the spec: the input trimmed of white space with every comma turned into a
  period; one or more digits, a digit being any decimal digit that the code reads;
  one or more of the digits \<open>0\<close> to \<open>9\<close>, which the formatted text is made of; a fraction
  padded to three digits with zeros on its right; and the first two shapes that \<open>parse\<close>
  accepts (the third is \<open>digits\<close> itself).
\<close>

definition normalised :: "str \<Rightarrow> str" where
  "normalised raw = replace (ord CHR '','') (ord CHR ''.'') (strip raw)"

definition digits :: "str \<Rightarrow> bool" where
  "digits ds = (ds \<noteq> [] \<and> list_all is_digit ds)"

definition digits_0_to_9 :: "str \<Rightarrow> bool" where
  "digits_0_to_9 ds = (ds \<noteq> [] \<and> list_all (\<lambda>c. ord CHR ''0'' \<le> c \<and> c \<le> ord CHR ''9'') ds)"

definition pad3 :: "str \<Rightarrow> str" where
  "pad3 f = f @ replicate (3 - length f) (ord CHR ''0'')"

definition shape_mss :: "str \<Rightarrow> str \<Rightarrow> str \<Rightarrow> code_point \<Rightarrow> str \<Rightarrow> bool" where
  "shape_mss s m sec sep f =
     (s = m @ ord CHR '':'' # sec @ sep # f \<and> digits m \<and> digits sec \<and> length sec \<le> 2
      \<and> (sep = ord CHR '':'' \<or> sep = ord CHR ''.'') \<and> digits f \<and> length f \<le> 3)"

definition shape_ss :: "str \<Rightarrow> str \<Rightarrow> str \<Rightarrow> bool" where
  "shape_ss s sec f = (s = sec @ ord CHR ''.'' # f \<and> digits sec \<and> digits f \<and> length f \<le> 3)"

text \<open>
  What the store's keys and the commands of the bot guarantee of a store: every time row
  belongs to a player row, no two time rows share the key (\<open>discord_id\<close>, \<open>map_number\<close>),
  no two player rows share a \<open>discord_id\<close>, every \<open>discord_id\<close> of a player is the text
  \<open>str(n)\<close> of an integer, and every stored time lies between one second and ten
  minutes.
\<close>

definition has_player :: "store \<Rightarrow> bool" where
  "has_player st =
     list_all (\<lambda>t. list_ex (\<lambda>p. p_discord_id p = t_discord_id t) (players_table st))
       (times_table st)"

definition time_keys_distinct :: "store \<Rightarrow> bool" where
  "time_keys_distinct st = distinct (map (\<lambda>t. (t_discord_id t, t_map_number t)) (times_table st))"

definition player_ids_distinct :: "store \<Rightarrow> bool" where
  "player_ids_distinct st = distinct (map p_discord_id (players_table st))"

definition canonical_id :: "str \<Rightarrow> bool" where
  "canonical_id did = (case py_int did of Inl e \<Rightarrow> False | Inr n \<Rightarrow> py_str n = did)"

definition ids_canonical :: "store \<Rightarrow> bool" where
  "ids_canonical st = list_all (\<lambda>p. canonical_id (p_discord_id p)) (players_table st)"

definition times_in_range :: "store \<Rightarrow> bool" where
  "times_in_range st =
     list_all (\<lambda>t. 1000 \<le> t_time_ms t \<and> t_time_ms t \<le> 600000) (times_table st)"

text \<open>
  The leaderboard engine in the specification's words: the points of a rank; the time
  rows of one map in ascending order of time; the rank of a player in such a sequence,
  its position counted from 1, or 0 where the player is absent; the maps a player has a
  time entry for; and the row of a player in the overall standings, with the number of
  those maps and the sum over them of the points of the player's rank.
\<close>

definition points_for_rank :: "int \<Rightarrow> int" where
  "points_for_rank rank =
     (if rank \<le> 0 then 0
      else if rank \<le> 10 then [25, 18, 15, 12, 10, 8, 6, 4, 2, 1] ! nat (rank - 1)
      else 1)"

definition map_entries :: "store \<Rightarrow> int \<Rightarrow> time_row list" where
  "map_entries st map_num = filter (\<lambda>t. t_map_number t = map_num) (times_table st)"

definition map_ranking :: "store \<Rightarrow> int \<Rightarrow> time_row list" where
  "map_ranking st map_num = sort_key t_time_ms (map_entries st map_num)"

definition rank_of :: "time_row list \<Rightarrow> str \<Rightarrow> int" where
  "rank_of ranking did =
     (if did \<in> t_discord_id ` set ranking
      then int (length (takeWhile (\<lambda>t. t_discord_id t \<noteq> did) ranking)) + 1
      else 0)"

definition maps_of :: "store \<Rightarrow> str \<Rightarrow> int set" where
  "maps_of st did = t_map_number ` {t \<in> set (times_table st). t_discord_id t = did}"

definition standing_of :: "store \<Rightarrow> player_row \<Rightarrow> standing" where
  "standing_of st p =
     \<lparr>s_discord_id = p_discord_id p, s_tm_username = p_tm_username p,
      points = (\<Sum>m \<in> maps_of st (p_discord_id p).
                  points_for_rank (rank_of (map_ranking st m) (p_discord_id p))),
      maps_completed = int (card (maps_of st (p_discord_id p)))\<rparr>"

definition handle_of :: "store \<Rightarrow> str \<Rightarrow> str option" where
  "handle_of st did =
     map_option p_tm_username (find (\<lambda>p. p_discord_id p = did) (players_table st))"

text \<open>
  The leaderboard row that the loop of \<open>get_map_leaderboard\<close> builds from a time row whose
  player exists, and the key of a time row.
\<close>

definition row_of :: "store \<Rightarrow> time_row \<Rightarrow> leaderboard_row" where
  "row_of st t = \<lparr>discord_id = t_discord_id t, tm_username = the (handle_of st (t_discord_id t)),
                  time_ms = t_time_ms t\<rparr>"

definition time_key :: "time_row \<Rightarrow> str \<times> int" where
  "time_key t = (t_discord_id t, t_map_number t)"

section \<open>Properties of the scoring table\<close>

lemma points_in_table:
  assumes "1 \<le> r" "r \<le> 10"
  shows "get_points_for_position r = Inr (point_values ! nat (r - 1))"
  using assms by (simp add: get_points_for_position_def py_index_def point_values_def)

lemma points_beyond_table:
  assumes "10 < r"
  shows "get_points_for_position r = Inr 1"
  using assms by (simp add: get_points_for_position_def point_values_def)

lemma point_values_antimono:
  assumes "i \<le> j" "j < 10"
  shows "point_values ! j \<le> point_values ! i"
proof -
  have "j \<in> {0, 1, 2, 3, 4, 5, 6, 7, 8, 9}" using assms(2) by auto
  moreover have "i \<in> {0, 1, 2, 3, 4, 5, 6, 7, 8, 9}" using assms by auto
  ultimately show ?thesis using assms(1)
    by (auto simp: point_values_def)
qed

lemma point_values_ge_1:
  assumes "i < 10"
  shows "1 \<le> point_values ! i"
proof -
  have "i \<in> {0, 1, 2, 3, 4, 5, 6, 7, 8, 9}" using assms by auto
  then show ?thesis by (auto simp: point_values_def)
qed

text \<open>
  C1 (as the code has it). For every rank \<open>0 \<le> rank\<close>: rank 0 earns 0 points, a rank
  from 1 to 10 earns the entry of the table \<open>[25,18,15,12,10,8,6,4,2,1]\<close> at that
  position (counted from 1), a rank above 10 earns 1 point, and the call returns
  (raises nothing).
\<close>

theorem points_for_rank_contract:
  assumes "0 \<le> rank"
  shows "get_points_for_position rank =
           Inr (if rank = 0 then 0
                else if rank \<le> 10 then [25, 18, 15, 12, 10, 8, 6, 4, 2, 1] ! nat (rank - 1)
                else 1)"
proof -
  consider "rank = 0" | "1 \<le> rank" "rank \<le> 10" | "10 < rank"
    using assms by linarith
  then show ?thesis
  proof cases
    case 1
    then show ?thesis by (simp add: get_points_for_position_def)
  next
    case 2
    then show ?thesis using points_in_table [OF 2] by (simp add: point_values_def)
  next
    case 3
    then show ?thesis using points_beyond_table [OF 3] by simp
  qed
qed

theorem points_for_rank_contract_witness:
  "get_points_for_position 1 = Inr 25 \<and> get_points_for_position 5 = Inr 10
   \<and> get_points_for_position 10 = Inr 1 \<and> get_points_for_position 11 = Inr 1
   \<and> get_points_for_position 0 = Inr 0"
  using points_for_rank_contract [of 1] points_for_rank_contract [of 5]
    points_for_rank_contract [of 10] points_for_rank_contract [of 11]
    points_for_rank_contract [of 0]
  by simp

text \<open>
  The claim C1 as the spec words it (every rank \<open>\<le> 0\<close> earns 0 and no integer makes
  the call fail) does not hold below zero: rank \<open>-1\<close> indexes the table from its end
  and earns 2 points, and rank \<open>-10\<close> indexes out of range and raises \<open>IndexError\<close>.
\<close>

theorem points_for_rank_negative_counterexample:
  "get_points_for_position (- 1) = Inr 2 \<and> get_points_for_position (- 10) = Inl IndexError"
  by (simp add: get_points_for_position_def py_index_def point_values_def)

text \<open>
  C10. On positive ranks the points never increase with the rank: for
  \<open>1 \<le> r1 \<le> r2\<close> both calls return, and the points of \<open>r1\<close> are at least those of
  \<open>r2\<close>.
\<close>

theorem points_for_rank_antimono:
  assumes "1 \<le> r1" "r1 \<le> r2"
  shows "\<exists>p1 p2. get_points_for_position r1 = Inr p1 \<and> get_points_for_position r2 = Inr p2
           \<and> p2 \<le> p1"
proof (cases "r2 \<le> 10")
  case True
  have "nat (r1 - 1) \<le> nat (r2 - 1)" "nat (r2 - 1) < 10"
    using assms True by auto
  then have "point_values ! nat (r2 - 1) \<le> point_values ! nat (r1 - 1)"
    by (rule point_values_antimono)
  then show ?thesis
    using points_in_table [of r1] points_in_table [of r2] assms True by simp
next
  case False
  then have r2: "get_points_for_position r2 = Inr 1"
    using points_beyond_table [of r2] by simp
  show ?thesis
  proof (cases "r1 \<le> 10")
    case True
    then have "nat (r1 - 1) < 10" using assms by auto
    then have "1 \<le> point_values ! nat (r1 - 1)" by (rule point_values_ge_1)
    then show ?thesis using r2 points_in_table [of r1] assms True by simp
  next
    case False
    then show ?thesis using r2 points_beyond_table [of r1] by simp
  qed
qed

theorem points_for_rank_antimono_witness:
  "get_points_for_position 3 = Inr 15 \<and> get_points_for_position 12 = Inr 1
   \<and> (\<exists>p1 p2. get_points_for_position 3 = Inr p1 \<and> get_points_for_position 12 = Inr p2
        \<and> p2 \<le> p1)"
  using points_for_rank_antimono [of 3 12]
  by (simp add: get_points_for_position_def py_index_def point_values_def)

section \<open>Digit strings\<close>

lemma zero_of_range: "zero_of c = Some z \<Longrightarrow> z \<le> c \<and> c < z + 10"
  by (auto simp: zero_of_def find_Some_iff)

lemma zero_of_0_to_9: "48 \<le> c \<Longrightarrow> c < 58 \<Longrightarrow> zero_of c = Some 48"
  by (simp add: zero_of_def decimal_zeros_def)

lemma spaces_not_digits: "list_all (\<lambda>s. \<not> is_digit s) spaces"
  by (simp add: spaces_def is_digit_def zero_of_def decimal_zeros_def)

lemma digit_not_space: "is_digit c \<Longrightarrow> \<not> is_space c"
  using spaces_not_digits by (auto simp: is_space_def list_all_iff)

lemma digit_not_int_space: "is_digit c \<Longrightarrow> \<not> is_int_space c"
  using digit_not_space by (simp add: is_int_space_def)

lemma punct_not_digit:
  "\<not> is_digit (ord CHR '':'')" "\<not> is_digit (ord CHR ''.'')" "\<not> is_digit (ord CHR '','')"
  "\<not> is_digit (ord CHR ''_'')" "\<not> is_digit (ord CHR ''-'')" "\<not> is_digit (ord CHR ''+'')"
  "\<not> is_digit (ord CHR 0x0A)"
  by (simp_all add: is_digit_def zero_of_def decimal_zeros_def)

lemma digit_not_punct:
  "is_digit c \<Longrightarrow> c \<noteq> ord CHR '':'' \<and> c \<noteq> ord CHR ''.'' \<and> c \<noteq> ord CHR '','' \<and> c \<noteq> ord CHR ''_''
     \<and> c \<noteq> ord CHR ''-'' \<and> c \<noteq> ord CHR ''+'' \<and> c \<noteq> ord CHR 0x0A"
  using punct_not_digit by blast

lemma digit_char_digit: "d < 10 \<Longrightarrow> is_digit (digit_char d)"
  by (simp add: digit_char_def is_digit_def zero_of_0_to_9)

lemma digit_value_digit_char: "d < 10 \<Longrightarrow> digit_value (digit_char d) = int d"
  by (simp add: digit_char_def digit_value_def zero_of_0_to_9)

lemma digit_value_range: "is_digit c \<Longrightarrow> 0 \<le> digit_value c \<and> digit_value c \<le> 9"
  using zero_of_range [of c] by (auto simp: is_digit_def digit_value_def)

lemma digit_value_zero: "digit_value (ord CHR ''0'') = 0"
  by (simp add: digit_value_def zero_of_0_to_9)

lemma decimal_value_Nil: "decimal_value [] = 0"
  by (simp add: decimal_value_def)

lemma decimal_value_snoc: "decimal_value (ds @ [c]) = 10 * decimal_value ds + digit_value c"
  by (simp add: decimal_value_def)

lemma decimal_value_append:
  "decimal_value (xs @ ys) = decimal_value xs * 10 ^ length ys + decimal_value ys"
proof (induction ys rule: rev_induct)
  case Nil
  then show ?case by (simp add: decimal_value_Nil)
next
  case (snoc y ys)
  have "decimal_value (xs @ ys @ [y]) = 10 * decimal_value (xs @ ys) + digit_value y"
    using decimal_value_snoc [of "xs @ ys" y] by simp
  then show ?case
    by (simp add: snoc.IH decimal_value_snoc algebra_simps)
qed

lemma decimal_value_zeros: "decimal_value (replicate k (ord CHR ''0'')) = 0"
  by (induction k) (simp_all add: decimal_value_def digit_value_zero [simplified])

lemma decimal_value_pad: "decimal_value (replicate k (ord CHR ''0'') @ ds) = decimal_value ds"
  by (simp add: decimal_value_append decimal_value_zeros [simplified])

lemma decimal_value_nonneg: "list_all is_digit ds \<Longrightarrow> 0 \<le> decimal_value ds"
proof (induction ds rule: rev_induct)
  case Nil
  then show ?case by (simp add: decimal_value_Nil)
next
  case (snoc c ds)
  then show ?case using digit_value_range [of c] by (simp add: decimal_value_snoc)
qed

lemma decimal_value_bound: "list_all is_digit ds \<Longrightarrow> decimal_value ds < 10 ^ length ds"
proof (induction ds rule: rev_induct)
  case Nil
  then show ?case by (simp add: decimal_value_Nil)
next
  case (snoc c ds)
  then have "decimal_value ds + 1 \<le> 10 ^ length ds" by simp
  then have "10 * decimal_value ds + 10 \<le> 10 * 10 ^ length ds" by linarith
  then show ?case using digit_value_range [of c] snoc.prems by (simp add: decimal_value_snoc)
qed

lemma digits_of_digits: "list_all is_digit (digits_of n)"
proof (induction n rule: digits_of.induct)
  case (1 n)
  show ?case
  proof (cases "n < 10")
    case True
    then show ?thesis by (simp add: digits_of.simps [of n] digit_char_digit)
  next
    case False
    then show ?thesis using 1 by (simp add: digits_of.simps [of n] digit_char_digit)
  qed
qed

lemma digits_of_nonempty: "digits_of n \<noteq> []"
  by (simp add: digits_of.simps [of n])

lemma decimal_value_digits_of: "decimal_value (digits_of n) = int n"
proof (induction n rule: digits_of.induct)
  case (1 n)
  show ?case
  proof (cases "n < 10")
    case True
    then show ?thesis
      using decimal_value_snoc [of "[]" "digit_char n"]
      by (simp add: digits_of.simps [of n] digit_value_digit_char decimal_value_Nil)
  next
    case False
    then have "decimal_value (digits_of (n div 10)) = int (n div 10)" using 1 by simp
    moreover have "int n = 10 * int (n div 10) + int (n mod 10)"
      by presburger
    ultimately show ?thesis using False
      by (simp add: digits_of.simps [of n] decimal_value_snoc digit_value_digit_char)
  qed
qed

lemma length_digits_of_small: "n < 10 \<Longrightarrow> length (digits_of n) = 1"
  by (simp add: digits_of.simps [of n])

lemma length_digits_of_two: "10 \<le> n \<Longrightarrow> n < 100 \<Longrightarrow> length (digits_of n) = 2"
  by (simp add: digits_of.simps [of n] length_digits_of_small)

lemma length_digits_of_three: "100 \<le> n \<Longrightarrow> n < 1000 \<Longrightarrow> length (digits_of n) = 3"
  by (simp add: digits_of.simps [of n] length_digits_of_two)

lemma length_digits_of_ge2: "10 \<le> n \<Longrightarrow> 2 \<le> length (digits_of n)"
  using digits_of_nonempty [of "n div 10"]
  by (cases "digits_of (n div 10)") (simp_all add: digits_of.simps [of n])

section \<open>Stripping, \<open>int\<close> and matching\<close>

lemma strip_Nil: "strip [] = []"
  by (simp add: strip_def strip_by_def)

lemma strip_by_id:
  assumes "s \<noteq> []" "\<not> blank (hd s)" "\<not> blank (last s)"
  shows "strip_by blank s = s"
proof -
  have "dropWhile blank s = s"
    using assms(1,2) by (cases s) simp_all
  moreover have "dropWhile blank (rev s) = rev s"
    using assms(1,3) by (cases "rev s") (simp_all add: hd_rev [symmetric])
  ultimately show ?thesis by (simp add: strip_by_def)
qed

lemma strip_id:
  assumes "s \<noteq> []" "\<not> is_space (hd s)" "\<not> is_space (last s)"
  shows "strip s = s"
  using assms by (simp add: strip_def strip_by_id)




lemma digits_nonspace_ends: "digits ds \<Longrightarrow> \<not> is_space (hd ds) \<and> \<not> is_space (last ds)"
proof -
  assume "digits ds"
  then have "hd ds \<in> set ds" "last ds \<in> set ds" "\<forall>c\<in>set ds. is_digit c"
    by (simp_all add: digits_def list_all_iff)
  then show ?thesis using digit_not_space by blast
qed

lemma underscores_ok_digits: "ds \<noteq> [] \<Longrightarrow> list_all is_digit ds \<Longrightarrow> underscores_ok ds"
proof (induction ds rule: underscores_ok.induct)
  case 1
  then show ?case by simp
next
  case (2 c)
  then show ?case by simp
next
  case (3 c d r)
  then have "d \<noteq> ord CHR ''_''" using digit_not_punct [of d] by auto
  then show ?case using 3 by simp
qed

lemma py_int_digits:
  assumes "digits ds"
  shows "py_int ds = Inr (decimal_value ds)"
proof -
  have ne: "ds \<noteq> []" and all: "list_all is_digit ds"
    using assms by (simp_all add: digits_def)
  have "hd ds \<in> set ds" "last ds \<in> set ds" "\<forall>c\<in>set ds. is_digit c"
    using ne all by (simp_all add: list_all_iff)
  then have "\<not> is_int_space (hd ds)" "\<not> is_int_space (last ds)"
    using digit_not_int_space by blast+
  then have st: "strip_by is_int_space ds = ds"
    using ne by (rule_tac strip_by_id)
  have "is_digit (hd ds)" using ne all by (cases ds) simp_all
  then have hd: "hd ds \<noteq> ord CHR ''-''" "hd ds \<noteq> ord CHR ''+''"
    using digit_not_punct [of "hd ds"] by simp_all
  have flt: "filter is_digit ds = ds"
    using all by (simp add: list_all_iff)
  show ?thesis
    using st hd flt underscores_ok_digits [OF ne all]
    by (simp add: py_int_def)
qed

lemma first_some_hit:
  assumes "f x = Some y"
  shows "first_some f (x # xs) = Some y"
  using assms by simp

lemma first_some_Some:
  assumes "first_some f xs = Some y"
  shows "\<exists>x\<in>set xs. f x = Some y"
  using assms by (induction xs) (auto split: option.splits)

lemma first_some_None:
  assumes "\<And>x. x \<in> set xs \<Longrightarrow> f x = None"
  shows "first_some f xs = None"
  using assms by (induction xs) auto

lemma takeWhile_run:
  assumes "list_all P ds" "rest = [] \<or> \<not> P (hd rest)"
  shows "takeWhile P (ds @ rest) = ds"
  using assms by (cases rest) (auto simp: list_all_iff takeWhile_append2 intro: takeWhile_eq_all_conv [THEN iffD2])

lemma re_match_group_run:
  assumes ds: "list_all is_digit ds" and lo: "lo \<le> length ds"
    and hi: "case hi of None \<Rightarrow> True | Some h \<Rightarrow> length ds \<le> h"
    and rest: "rest = [] \<or> \<not> is_digit (hd rest)"
    and tail: "re_match ts rest = Some gs"
  shows "re_match (Group Digit lo hi # ts) (ds @ rest) = Some (ds # gs)"
proof -
  have run: "takeWhile (accepts Digit) (ds @ rest) = ds"
    using takeWhile_run [of is_digit ds rest] ds rest
    by (simp add: accepts.simps [abs_def])
  define most where "most = (case hi of None \<Rightarrow> length ds | Some h \<Rightarrow> min h (length ds))"
  have most: "most = length ds"
    using hi by (auto simp: most_def split: option.splits)
  have cands: "rev [lo ..< Suc most] = length ds # rev [lo ..< length ds]"
    using lo most by simp
  have "re_match (Group Digit lo hi # ts) (ds @ rest) =
        first_some (\<lambda>n. map_option ((#) (take n (ds @ rest))) (re_match ts (drop n (ds @ rest))))
          (rev [lo ..< Suc most])"
    by (simp add: run most_def Let_def)
  also have "\<dots> = Some (ds # gs)"
    unfolding cands using tail by simp
  finally show ?thesis .
qed

lemma re_match_group_sound:
  assumes "re_match (Group a lo hi # ts) s = Some gs"
  shows "\<exists>g r gs'. s = g @ r \<and> gs = g # gs' \<and> list_all (accepts a) g \<and> lo \<le> length g
           \<and> (case hi of None \<Rightarrow> True | Some h \<Rightarrow> length g \<le> h) \<and> re_match ts r = Some gs'"
proof -
  define run where "run = length (takeWhile (accepts a) s)"
  define most where "most = (case hi of None \<Rightarrow> run | Some h \<Rightarrow> min h run)"
  have "first_some (\<lambda>n. map_option ((#) (take n s)) (re_match ts (drop n s)))
          (rev [lo ..< Suc most]) = Some gs"
    using assms unfolding most_def run_def by (simp add: Let_def del: upt_Suc)
  then obtain n where n: "n \<in> set (rev [lo ..< Suc most])"
    and hit: "map_option ((#) (take n s)) (re_match ts (drop n s)) = Some gs"
    using first_some_Some by fast
  from hit obtain gs' where gs': "re_match ts (drop n s) = Some gs'" "gs = take n s # gs'"
    by auto
  have bounds: "lo \<le> n" "n \<le> most" using n by auto
  have "most \<le> run" by (simp add: most_def split: option.splits)
  then have nrun: "n \<le> run" using bounds by simp
  have "take n s = take n (takeWhile (accepts a) s)"
    using nrun unfolding run_def
    by (metis append_eq_conv_conj takeWhile_dropWhile_id take_append min.absorb2 nat_le_linear
        diff_is_0_eq take_0 append_Nil2 length_take min.commute take_all)
  then have acc: "list_all (accepts a) (take n s)"
    by (metis in_set_takeD list_all_iff set_takeWhileD)
  have len: "length (take n s) = n"
    using nrun length_takeWhile_le [of "accepts a" s] by (simp add: run_def)
  have hi: "case hi of None \<Rightarrow> True | Some h \<Rightarrow> length (take n s) \<le> h"
    using bounds(2) len by (auto simp: most_def split: option.splits)
  show ?thesis
    using gs' acc len bounds(1) hi
    by (intro exI [of _ "take n s"] exI [of _ "drop n s"] exI [of _ gs']) simp
qed

lemma re_match_single_sound:
  assumes "re_match (Single a # ts) s = Some gs"
  shows "\<exists>c r. s = c # r \<and> accepts a c \<and> re_match ts r = Some gs"
  using assms by (cases s) (auto split: if_splits)

lemma re_match_single:
  assumes "accepts a c"
  shows "re_match (Single a # ts) (c # r) = re_match ts r"
  using assms by simp

lemma re_match_end_sound:
  assumes "re_match [] s = Some gs"
  shows "at_end s \<and> gs = []"
  using assms by (auto split: if_splits)

lemma digits_run_unique:
  assumes "list_all is_digit a" "list_all is_digit b" "\<not> is_digit c" "\<not> is_digit d"
    and "a @ c # r = b @ d # r'"
  shows "a = b \<and> c = d \<and> r = r'"
proof -
  have "takeWhile is_digit (a @ c # r) = a" "takeWhile is_digit (b @ d # r') = b"
    using assms(1-4) by (simp_all add: takeWhile_run)
  then have "a = b" using assms(5) by simp
  then show ?thesis using assms(5) by simp
qed

lemma digits_run_no_sep:
  assumes "list_all is_digit b" "\<not> is_digit c"
  shows "a @ c # r \<noteq> b"
proof
  assume "a @ c # r = b"
  then have "c \<in> set b" by auto
  then show False using assms by (simp add: list_all_iff)
qed

lemma sep_not_digit: "\<not> is_digit (ord CHR '':'')" "\<not> is_digit (ord CHR ''.'')"
  by (rule punct_not_digit)+

lemma re_match_end: "re_match [] [] = Some []"
  by (simp add: at_end_def)

lemma match_mss_complete:
  assumes "shape_mss s m sec sep f"
  shows "re_match pattern_mss s = Some [m, sec, f]"
proof -
  have s: "s = m @ ord CHR '':'' # sec @ sep # f" and m: "digits m" and sec: "digits sec" "length sec \<le> 2"
    and sep: "sep = ord CHR '':'' \<or> sep = ord CHR ''.''" and f: "digits f" "length f \<le> 3"
    using assms by (simp_all add: shape_mss_def)
  have sepnd: "\<not> is_digit sep" using sep sep_not_digit by auto
  have "re_match [Group Digit 1 (Some 3)] (f @ []) = Some [f]"
    using f by (intro re_match_group_run) (simp_all add: digits_def at_end_def Suc_le_eq)
  then have "re_match [Single (OneOf (lit '':.'')), Group Digit 1 (Some 3)] (sep # f) = Some [f]"
    using sep by auto
  then have "re_match [Group Digit 1 (Some 2), Single (OneOf (lit '':.'')), Group Digit 1 (Some 3)]
               (sec @ sep # f) = Some [sec, f]"
    using sec sepnd by (intro re_match_group_run) (simp_all add: digits_def Suc_le_eq)
  then have "re_match [Single (OneOf (lit '':'')), Group Digit 1 (Some 2), Single (OneOf (lit '':.'')),
               Group Digit 1 (Some 3)] (ord CHR '':'' # sec @ sep # f) = Some [sec, f]"
    by simp
  then have "re_match pattern_mss (m @ ord CHR '':'' # sec @ sep # f) = Some [m, sec, f]"
    unfolding pattern_mss_def using m sep_not_digit
    by (intro re_match_group_run) (simp_all add: digits_def Suc_le_eq)
  then show ?thesis using s by simp
qed


lemma match_raw_complete:
  assumes "digits s"
  shows "re_match pattern_raw s = Some [s]"
proof -
  have "re_match pattern_raw (s @ []) = Some [s]"
    unfolding pattern_raw_def using assms
    by (intro re_match_group_run) (simp_all add: digits_def at_end_def Suc_le_eq)
  then show ?thesis by simp
qed

lemma re_match_digits_unbounded:
  assumes "re_match (Group Digit 1 None # ts) s = Some gs"
  shows "\<exists>g r gs'. s = g @ r \<and> gs = g # gs' \<and> digits g \<and> re_match ts r = Some gs'"
proof -
  obtain g r gs' where *: "s = g @ r" "gs = g # gs'" "list_all (accepts Digit) g" "1 \<le> length g"
      "re_match ts r = Some gs'"
    using re_match_group_sound [OF assms] by blast
  have "digits g" using *(3,4) by (cases g) (simp_all add: digits_def list_all_iff)
  then show ?thesis using * by blast
qed

lemma re_match_digits_bounded:
  assumes "re_match (Group Digit 1 (Some h) # ts) s = Some gs"
  shows "\<exists>g r gs'. s = g @ r \<and> gs = g # gs' \<and> digits g \<and> length g \<le> h
           \<and> re_match ts r = Some gs'"
proof -
  obtain g r gs' where *: "s = g @ r" "gs = g # gs'" "list_all (accepts Digit) g" "1 \<le> length g"
      "case Some h of None \<Rightarrow> True | Some h \<Rightarrow> length g \<le> h" "re_match ts r = Some gs'"
    using re_match_group_sound [OF assms] by blast
  have "digits g" using *(3,4) by (cases g) (simp_all add: digits_def list_all_iff)
  moreover have "length g \<le> h" using *(5) by simp
  ultimately show ?thesis using * by blast
qed

lemma re_match_literal_sound:
  assumes "re_match (Single (OneOf cs) # ts) s = Some gs"
  shows "\<exists>c r. s = c # r \<and> c \<in> set cs \<and> re_match ts r = Some gs"
  using re_match_single_sound [OF assms] by simp

lemma match_mss_sound:
  assumes "re_match pattern_mss s = Some gs"
  shows "\<exists>m sec sep f nl. shape_mss (m @ ord CHR '':'' # sec @ sep # f) m sec sep f
           \<and> s = m @ ord CHR '':'' # sec @ sep # f @ nl \<and> at_end nl \<and> gs = [m, sec, f]"
proof -
  have t0: "re_match (Group Digit 1 None # [Single (OneOf (lit '':'')), Group Digit 1 (Some 2),
              Single (OneOf (lit '':.'')), Group Digit 1 (Some 3)]) s = Some gs"
    using assms by (simp only: pattern_mss_def)
  obtain m r1 gs1 where 1: "s = m @ r1" "gs = m # gs1" "digits m"
    and t1: "re_match (Single (OneOf (lit '':'')) # [Group Digit 1 (Some 2), Single (OneOf (lit '':.'')),
               Group Digit 1 (Some 3)]) r1 = Some gs1"
    using re_match_digits_unbounded [OF t0] by blast
  obtain c1 r2 where 2: "r1 = c1 # r2" "c1 \<in> set (lit '':'')"
    and t2: "re_match (Group Digit 1 (Some 2) # [Single (OneOf (lit '':.'')), Group Digit 1 (Some 3)]) r2
               = Some gs1"
    using re_match_literal_sound [OF t1] by blast
  obtain sec r3 gs2 where 3: "r2 = sec @ r3" "gs1 = sec # gs2" "digits sec" "length sec \<le> 2"
    and t3: "re_match (Single (OneOf (lit '':.'')) # [Group Digit 1 (Some 3)]) r3 = Some gs2"
    using re_match_digits_bounded [OF t2] by blast
  obtain sep r4 where 4: "r3 = sep # r4" "sep \<in> set (lit '':.'')"
    and t4: "re_match (Group Digit 1 (Some 3) # []) r4 = Some gs2"
    using re_match_literal_sound [OF t3] by blast
  obtain f nl gs3 where 5: "r4 = f @ nl" "gs2 = f # gs3" "digits f" "length f \<le> 3"
    and t5: "re_match [] nl = Some gs3"
    using re_match_digits_bounded [OF t4] by blast
  have 6: "at_end nl" "gs3 = []" using re_match_end_sound [OF t5] by simp_all
  have c1: "c1 = ord CHR '':''" using 2(2) by simp
  have sep: "sep = ord CHR '':'' \<or> sep = ord CHR ''.''" using 4(2) by simp
  have "shape_mss (m @ ord CHR '':'' # sec @ sep # f) m sec sep f"
    using 1(3) 3(3,4) sep 5(3,4) by (simp add: shape_mss_def)
  moreover have "s = m @ ord CHR '':'' # sec @ sep # f @ nl"
    by (simp add: 1(1) 2(1) c1 3(1) 4(1) 5(1))
  moreover have "gs = [m, sec, f]"
    by (simp add: 1(2) 3(2) 5(2) 6(2))
  ultimately show ?thesis using 6(1) by blast
qed

lemma match_ss_sound:
  assumes "re_match pattern_ss s = Some gs"
  shows "\<exists>sec f nl. shape_ss (sec @ ord CHR ''.'' # f) sec f
           \<and> s = sec @ ord CHR ''.'' # f @ nl \<and> at_end nl \<and> gs = [sec, f]"
proof -
  have t0: "re_match (Group Digit 1 None # [Single (OneOf (lit ''.'')), Group Digit 1 (Some 3)]) s
              = Some gs"
    using assms by (simp only: pattern_ss_def)
  obtain sec r1 gs1 where 1: "s = sec @ r1" "gs = sec # gs1" "digits sec"
    and t1: "re_match (Single (OneOf (lit ''.'')) # [Group Digit 1 (Some 3)]) r1 = Some gs1"
    using re_match_digits_unbounded [OF t0] by blast
  obtain c1 r2 where 2: "r1 = c1 # r2" "c1 \<in> set (lit ''.'')"
    and t2: "re_match (Group Digit 1 (Some 3) # []) r2 = Some gs1"
    using re_match_literal_sound [OF t1] by blast
  obtain f nl gs2 where 3: "r2 = f @ nl" "gs1 = f # gs2" "digits f" "length f \<le> 3"
    and t3: "re_match [] nl = Some gs2"
    using re_match_digits_bounded [OF t2] by blast
  have 4: "at_end nl" "gs2 = []" using re_match_end_sound [OF t3] by simp_all
  have c1: "c1 = ord CHR ''.''" using 2(2) by simp
  have "shape_ss (sec @ ord CHR ''.'' # f) sec f"
    using 1(3) 3(3,4) by (simp add: shape_ss_def)
  moreover have "s = sec @ ord CHR ''.'' # f @ nl"
    by (simp add: 1(1) 2(1) c1 3(1))
  moreover have "gs = [sec, f]"
    by (simp add: 1(2) 3(2) 4(2))
  ultimately show ?thesis using 4(1) by blast
qed


section \<open>What \<open>parse_time\<close> returns\<close>

lemma zero_is_digit: "is_digit (ord CHR ''0'')"
  by (simp add: is_digit_def zero_of_0_to_9)

lemma digits_pad3: "digits f \<Longrightarrow> digits (pad3 f)"
  by (simp add: digits_def pad3_def list_all_length nth_append zero_is_digit [simplified])

lemma take_ljust_pad3: "length f \<le> 3 \<Longrightarrow> take 3 (ljust 3 (ord CHR ''0'') f) = pad3 f"
  by (simp add: ljust_def pad3_def)

lemma bind_Inr: "bind (Inr v) f = f v"
  by (simp add: bind_def)


lemma mss_not_raw:
  assumes "digits s"
  shows "re_match pattern_mss s = None"
proof (rule ccontr)
  assume "re_match pattern_mss s \<noteq> None"
  then obtain gs where "re_match pattern_mss s = Some gs" by blast
  then obtain m' r' where "s = m' @ ord CHR '':'' # r'"
    using match_mss_sound [of s gs] by blast
  then show False
    using digits_run_no_sep [of s "ord CHR '':''" m' r'] assms sep_not_digit
    by (simp add: digits_def)
qed

lemma ss_not_raw:
  assumes "digits s"
  shows "re_match pattern_ss s = None"
proof (rule ccontr)
  assume "re_match pattern_ss s \<noteq> None"
  then obtain gs where "re_match pattern_ss s = Some gs" by blast
  then obtain m' r' where "s = m' @ ord CHR ''.'' # r'"
    using match_ss_sound [of s gs] by blast
  then show False
    using digits_run_no_sep [of s "ord CHR ''.''" m' r'] assms sep_not_digit
    by (simp add: digits_def)
qed




lemma parse_time_mss:
  assumes "shape_mss (replace (ord CHR '','') (ord CHR ''.'') (strip raw)) m sec sep f"
  shows "parse_time raw =
           Inr (Some (decimal_value m * 60000 + decimal_value sec * 1000 + decimal_value (pad3 f)))"
proof -
  have m: "digits m" and sec: "digits sec" and f: "digits f" "length f \<le> 3"
    using assms by (simp_all add: shape_mss_def)
  have "py_int m = Inr (decimal_value m)" "py_int sec = Inr (decimal_value sec)"
    "py_int (pad3 f) = Inr (decimal_value (pad3 f))"
    using m sec f(1) by (simp_all add: py_int_digits digits_pad3)
  then show ?thesis
    using match_mss_complete [OF assms] f(2)
    unfolding parse_time_def Let_def
    by (simp only: option.case list.case take_ljust_pad3 bind_Inr)
qed


lemma parse_time_raw:
  assumes "digits (replace (ord CHR '','') (ord CHR ''.'') (strip raw))"
  shows "parse_time raw = Inr (Some (decimal_value (replace (ord CHR '','') (ord CHR ''.'') (strip raw))))"
  using match_raw_complete [OF assms] mss_not_raw [OF assms] ss_not_raw [OF assms]
    py_int_digits [OF assms]
  unfolding parse_time_def Let_def
  by (simp only: option.case list.case bind_Inr)


section \<open>What \<open>format_time\<close> returns\<close>

lemma format_0d_nonneg:
  "0 \<le> n \<Longrightarrow> format_0d w n = replicate (w - length (digits_of (nat n))) (ord CHR ''0'') @ digits_of (nat n)"
  by (simp add: format_0d_def)

lemma digits_format_0d: "0 \<le> n \<Longrightarrow> digits (format_0d w n)"
  using digits_of_digits [of "nat n"] digits_of_nonempty [of "nat n"]
  by (simp add: format_0d_nonneg digits_def list_all_length nth_append
      zero_is_digit [simplified])

lemma decimal_value_format_0d: "0 \<le> n \<Longrightarrow> decimal_value (format_0d w n) = n"
  by (simp add: format_0d_nonneg decimal_value_pad [simplified] decimal_value_digits_of)

lemma length_format_0d: "0 \<le> n \<Longrightarrow> length (format_0d w n) = max w (length (digits_of (nat n)))"
  by (simp add: format_0d_nonneg)

lemma length_digits_of_lt_100: "n < 100 \<Longrightarrow> length (digits_of n) \<le> 2"
  using length_digits_of_small [of n] length_digits_of_two [of n] by (cases "n < 10") simp_all

lemma length_digits_of_lt_1000: "n < 1000 \<Longrightarrow> length (digits_of n) \<le> 3"
  using length_digits_of_lt_100 [of n] length_digits_of_three [of n] by (cases "n < 100") simp_all

lemma length_format_2: "0 \<le> n \<Longrightarrow> n < 100 \<Longrightarrow> length (format_0d 2 n) = 2"
  using length_digits_of_lt_100 [of "nat n"] by (simp add: length_format_0d)

lemma length_format_3: "0 \<le> n \<Longrightarrow> n < 1000 \<Longrightarrow> length (format_0d 3 n) = 3"
  using length_digits_of_lt_1000 [of "nat n"] by (simp add: length_format_0d)

lemma digit_char_nonzero: "0 < d \<Longrightarrow> d < 10 \<Longrightarrow> digit_char d \<noteq> ord CHR ''0''"
  by (simp add: digit_char_def)

lemma hd_digits_of: "0 < n \<Longrightarrow> hd (digits_of n) \<noteq> ord CHR ''0''"
proof (induction n rule: digits_of.induct)
  case (1 n)
  show ?case
  proof (cases "n < 10")
    case True
    then show ?thesis
      using 1(2) by (simp add: digits_of.simps [of n] digit_char_nonzero [simplified])
  next
    case False
    then have "hd (digits_of (n div 10)) \<noteq> ord CHR ''0''" using 1 by simp
    then show ?thesis
      using False digits_of_nonempty [of "n div 10"] by (simp add: digits_of.simps [of n])
  qed
qed

lemma format_0d_wide:
  assumes "0 \<le> n" "w < length (format_0d w n)" "0 < w"
  shows "hd (format_0d w n) \<noteq> ord CHR ''0''"
proof -
  have len: "w < length (digits_of (nat n))"
    using assms by (simp add: length_format_0d)
  then have eq: "format_0d w n = digits_of (nat n)"
    using assms(1) by (simp add: format_0d_nonneg)
  have "0 < nat n"
  proof (rule ccontr)
    assume "\<not> 0 < nat n"
    then have "length (digits_of (nat n)) = 1" by (simp add: length_digits_of_small)
    then show False using len assms(3) by simp
  qed
  then show ?thesis using eq hd_digits_of by simp
qed

lemma format_time_pos:
  assumes "0 < ms"
  shows "format_time ms = format_0d 2 (ms div 60000) @ ord CHR '':'' # format_0d 2 (ms mod 60000 div 1000)
           @ ord CHR ''.'' # format_0d 3 (ms mod 1000)"
  using assms by (simp add: format_time_def Let_def)

lemma time_fields:
  fixes ms :: int
  assumes "0 < ms"
  shows "0 \<le> ms div 60000" "0 \<le> ms mod 60000 div 1000" "ms mod 60000 div 1000 \<le> 59"
    "0 \<le> ms mod 1000" "ms mod 1000 < 1000"
    "ms div 60000 * 60000 + ms mod 60000 div 1000 * 1000 + ms mod 1000 = ms"
proof -
  show "0 \<le> ms div 60000" using assms by (simp add: pos_imp_zdiv_nonneg_iff)
  have r: "0 \<le> ms mod 60000" "ms mod 60000 < 60000" by simp_all
  show "0 \<le> ms mod 60000 div 1000" using r by (simp add: pos_imp_zdiv_nonneg_iff)
  show "ms mod 60000 div 1000 \<le> 59" using r by linarith
  show "0 \<le> ms mod 1000" "ms mod 1000 < 1000" by simp_all
  have "ms mod 60000 mod 1000 = ms mod 1000"
    by (simp add: mod_mod_cancel)
  then have "ms mod 60000 div 1000 * 1000 + ms mod 1000 = ms mod 60000"
    using div_mult_mod_eq [of "ms mod 60000" 1000] by simp
  then show "ms div 60000 * 60000 + ms mod 60000 div 1000 * 1000 + ms mod 1000 = ms"
    using div_mult_mod_eq [of ms 60000] by linarith
qed

lemma shape_format_time:
  assumes "0 < ms"
  shows "shape_mss (format_time ms) (format_0d 2 (ms div 60000))
           (format_0d 2 (ms mod 60000 div 1000)) (ord CHR ''.'') (format_0d 3 (ms mod 1000))"
  using time_fields [OF assms]
  by (simp add: shape_mss_def format_time_pos [OF assms] digits_format_0d length_format_2
      length_format_3)

lemma replace_id: "old \<notin> set s \<Longrightarrow> replace old new s = s"
  by (induction s) (auto simp: replace_def)

lemma digits_no_comma: "digits ds \<Longrightarrow> ord CHR '','' \<notin> set ds"
  using digit_not_punct by (auto simp: digits_def list_all_iff)

lemma normalised_shape_mss:
  assumes "shape_mss s m sec sep f"
  shows "replace (ord CHR '','') (ord CHR ''.'') (strip s) = s"
proof -
  have s: "s = m @ ord CHR '':'' # sec @ sep # f" and m: "digits m" and sec: "digits sec"
    and sep: "sep = ord CHR '':'' \<or> sep = ord CHR ''.''" and f: "digits f"
    using assms by (simp_all add: shape_mss_def)
  have "hd s = hd m" "last s = last f" "s \<noteq> []"
    using s m f by (simp_all add: digits_def)
  then have "strip s = s"
    using strip_id [of s] digits_nonspace_ends [OF m] digits_nonspace_ends [OF f] by simp
  moreover have "ord CHR '','' \<notin> set s"
    using s sep digits_no_comma [OF m] digits_no_comma [OF sec] digits_no_comma [OF f] by auto
  ultimately show ?thesis by (simp add: replace_id)
qed

lemma parse_format_time:
  assumes "0 < t"
  shows "parse_time (format_time t) = Inr (Some t)"
proof -
  let ?M = "format_0d 2 (t div 60000)"
  let ?S = "format_0d 2 (t mod 60000 div 1000)"
  let ?F = "format_0d 3 (t mod 1000)"
  have sh: "shape_mss (format_time t) ?M ?S (ord CHR ''.'') ?F"
    by (rule shape_format_time [OF assms])
  then have "shape_mss (replace (ord CHR '','') (ord CHR ''.'') (strip (format_time t))) ?M ?S (ord CHR ''.'') ?F"
    using normalised_shape_mss [OF sh] by simp
  then have "parse_time (format_time t) =
      Inr (Some (decimal_value ?M * 60000 + decimal_value ?S * 1000 + decimal_value (pad3 ?F)))"
    by (rule parse_time_mss)
  moreover have "pad3 ?F = ?F"
    using time_fields [OF assms] by (simp add: pad3_def length_format_3)
  ultimately show ?thesis
    using time_fields [OF assms] by (simp add: decimal_value_format_0d)
qed

section \<open>Claims on the time codec\<close>

lemma is_digit_0_to_9: "48 \<le> c \<Longrightarrow> c \<le> 57 \<Longrightarrow> is_digit c"
  by (simp add: is_digit_def zero_of_0_to_9)

lemma digit_value_0_to_9: "48 \<le> c \<Longrightarrow> c \<le> 57 \<Longrightarrow> digit_value c = int c - 48"
  by (simp add: digit_value_def zero_of_0_to_9)

lemma digits_0_to_9_digits: "digits_0_to_9 ds \<Longrightarrow> digits ds"
  by (simp add: digits_0_to_9_def digits_def list_all_iff is_digit_0_to_9)

lemma digits_of_0_to_9: "list_all (\<lambda>c. ord CHR ''0'' \<le> c \<and> c \<le> ord CHR ''9'') (digits_of n)"
proof (induction n rule: digits_of.induct)
  case (1 n)
  show ?case
  proof (cases "n < 10")
    case True
    then show ?thesis by (simp add: digits_of.simps [of n] digit_char_def)
  next
    case False
    then show ?thesis using 1 by (simp add: digits_of.simps [of n] digit_char_def)
  qed
qed

lemma digits_0_to_9_format_0d: "0 \<le> n \<Longrightarrow> digits_0_to_9 (format_0d w n)"
  using digits_of_0_to_9 [of "nat n"] digits_of_nonempty [of "nat n"]
  by (simp add: format_0d_nonneg digits_0_to_9_def list_all_length nth_append)



text \<open>
  C2. Formatting a positive number of milliseconds and parsing the text gives the
  number back: for every integer \<open>t\<close> with \<open>0 < t\<close>, \<open>parse_time (format_time t)\<close>
  returns \<open>t\<close>.
\<close>

theorem parse_format_round_trip:
  assumes "0 < t"
  shows "parse_time (format_time t) = Inr (Some t)"
  using assms by (rule parse_format_time)

theorem parse_format_round_trip_witness:
  "format_time 83456 = lit ''01:23.456'' \<and> parse_time (lit ''01:23.456'') = Inr (Some 83456)"
proof -
  have f: "format_time 83456 = lit ''01:23.456''" by code_simp
  have "(0::int) < 83456" by simp
  from parse_format_round_trip [OF this] show ?thesis by (simp add: f)
qed




text \<open>
  C8. \<open>format_time\<close> returns \<open>00:00.000\<close> for every value \<open>\<le> 0\<close>. For a value \<open>> 0\<close> it
  returns the minutes, a colon, the seconds, a period and the millisecond remainder,
  where the minutes are the decimal digits of \<open>ms div 60000\<close> padded with zeros to two
  digits and never cut (a text longer than two digits starts with no zero), the seconds
  are two digits reading \<open>ms mod 60000 div 1000\<close>, a number from 0 to 59, and the
  remainder is three digits reading \<open>ms mod 1000\<close>.
\<close>

theorem format_time_shape:
  "(ms \<le> 0 \<longrightarrow> format_time ms = lit ''00:00.000'')
   \<and> (0 < ms \<longrightarrow>
        (\<exists>M S F. format_time ms = M @ ord CHR '':'' # S @ ord CHR ''.'' # F
           \<and> digits_0_to_9 M \<and> decimal_value M = ms div 60000 \<and> 2 \<le> length M
           \<and> (2 < length M \<longrightarrow> hd M \<noteq> ord CHR ''0'')
           \<and> digits_0_to_9 S \<and> length S = 2 \<and> decimal_value S = ms mod 60000 div 1000
           \<and> decimal_value S \<le> 59
           \<and> digits_0_to_9 F \<and> length F = 3 \<and> decimal_value F = ms mod 1000))"
proof (intro conjI impI)
  assume "ms \<le> 0"
  then show "format_time ms = lit ''00:00.000''" by (simp add: format_time_def)
next
  assume pos: "0 < ms"
  let ?M = "format_0d 2 (ms div 60000)"
  let ?S = "format_0d 2 (ms mod 60000 div 1000)"
  let ?F = "format_0d 3 (ms mod 1000)"
  note tf = time_fields [OF pos]
  have "format_time ms = ?M @ ord CHR '':'' # ?S @ ord CHR ''.'' # ?F"
    by (rule format_time_pos [OF pos])
  moreover have "digits_0_to_9 ?M" "decimal_value ?M = ms div 60000" "2 \<le> length ?M"
    using tf(1)
    by (simp_all add: digits_0_to_9_format_0d decimal_value_format_0d length_format_0d)
  moreover have "2 < length ?M \<longrightarrow> hd ?M \<noteq> ord CHR ''0''"
    using format_0d_wide [OF tf(1), of 2] by simp
  moreover have "digits_0_to_9 ?S" "length ?S = 2" "decimal_value ?S = ms mod 60000 div 1000"
    "decimal_value ?S \<le> 59"
    using tf(2,3)
    by (simp_all add: digits_0_to_9_format_0d decimal_value_format_0d length_format_2)
  moreover have "digits_0_to_9 ?F" "length ?F = 3" "decimal_value ?F = ms mod 1000"
    using tf(4,5)
    by (simp_all add: digits_0_to_9_format_0d decimal_value_format_0d length_format_3)
  ultimately show "\<exists>M S F. format_time ms = M @ ord CHR '':'' # S @ ord CHR ''.'' # F
           \<and> digits_0_to_9 M \<and> decimal_value M = ms div 60000 \<and> 2 \<le> length M
           \<and> (2 < length M \<longrightarrow> hd M \<noteq> ord CHR ''0'')
           \<and> digits_0_to_9 S \<and> length S = 2 \<and> decimal_value S = ms mod 60000 div 1000
           \<and> decimal_value S \<le> 59
           \<and> digits_0_to_9 F \<and> length F = 3 \<and> decimal_value F = ms mod 1000"
    by blast
qed

theorem format_time_shape_witness:
  "format_time 0 = lit ''00:00.000'' \<and> format_time (- 5) = lit ''00:00.000''
   \<and> format_time 6000000 = lit ''100:00.000''
   \<and> (\<exists>M S F. format_time 6000000 = M @ ord CHR '':'' # S @ ord CHR ''.'' # F \<and> 2 < length M
         \<and> hd M \<noteq> ord CHR ''0'' \<and> decimal_value M = 100)"
proof -
  have 1: "format_time 0 = lit ''00:00.000''" "format_time (- 5) = lit ''00:00.000''"
    using format_time_shape [of 0] format_time_shape [of "- 5"] by simp_all
  have 2: "format_time 6000000 = lit ''100:00.000''" by code_simp
  obtain M S F where *: "format_time 6000000 = M @ ord CHR '':'' # S @ ord CHR ''.'' # F"
    "digits_0_to_9 M" "decimal_value M = 6000000 div 60000"
    "2 < length M \<longrightarrow> hd M \<noteq> ord CHR ''0''"
    using format_time_shape [of 6000000] by auto
  have "lit ''100'' @ ord CHR '':'' # lit ''00.000'' = M @ ord CHR '':'' # S @ ord CHR ''.'' # F"
    using * 2 by simp
  then have "lit ''100'' = M"
    using digits_run_unique [of "lit ''100''" M "ord CHR '':''" "ord CHR '':''" "lit ''00.000''"
        "S @ ord CHR ''.'' # F"]
      digits_0_to_9_digits [OF *(2)] sep_not_digit
    by (simp add: digits_def is_digit_0_to_9)
  then have M: "M = lit ''100''" by simp
  have "format_time 6000000 = lit ''100'' @ ord CHR '':'' # S @ ord CHR ''.'' # F \<and> 2 < length (lit ''100'')
      \<and> hd (lit ''100'') \<noteq> ord CHR ''0'' \<and> decimal_value (lit ''100'') = 100"
    using *(1,3) by (simp add: M)
  then have "\<exists>M S F. format_time 6000000 = M @ ord CHR '':'' # S @ ord CHR ''.'' # F \<and> 2 < length M
      \<and> hd M \<noteq> ord CHR ''0'' \<and> decimal_value M = 100"
    by blast
  then show ?thesis using 1 2 by blast
qed

text \<open>
  C9. \<open>parse_time\<close> does not check that the seconds are below 60: on every input of the
  first shape whose seconds read 60 or more (two digits, 60 to 99) it returns
  \<open>minutes * 60000 + seconds * 1000 + fraction\<close>, and formatting that value does not
  give the input back.
\<close>

theorem parse_accepts_seconds_over_59:
  assumes sh: "shape_mss (normalised raw) m sec sep f" and big: "60 \<le> decimal_value sec"
  shows "parse_time raw =
           Inr (Some (decimal_value m * 60000 + decimal_value sec * 1000 + decimal_value (pad3 f)))
         \<and> format_time (decimal_value m * 60000 + decimal_value sec * 1000
              + decimal_value (pad3 f)) \<noteq> raw
         \<and> length sec = 2 \<and> decimal_value sec \<le> 99"
proof -
  let ?v = "decimal_value m * 60000 + decimal_value sec * 1000 + decimal_value (pad3 f)"
  let ?M = "format_0d 2 (?v div 60000)"
  let ?S = "format_0d 2 (?v mod 60000 div 1000)"
  let ?F = "format_0d 3 (?v mod 1000)"
  have m: "digits m" and sec: "digits sec" "length sec \<le> 2" and f: "digits f"
    and s: "normalised raw = m @ ord CHR '':'' # sec @ sep # f"
    and sep: "sep = ord CHR '':'' \<or> sep = ord CHR ''.''"
    using sh by (simp_all add: shape_mss_def)
  have parsed: "parse_time raw = Inr (Some ?v)"
    using sh unfolding normalised_def by (rule parse_time_mss)
  have "0 \<le> decimal_value m" "0 \<le> decimal_value (pad3 f)"
    using m digits_pad3 [OF f] by (simp_all add: digits_def decimal_value_nonneg)
  then have pos: "0 < ?v" using big by linarith
  note tf = time_fields [OF pos]
  have no_trip: "format_time ?v \<noteq> raw"
  proof
    assume eq: "format_time ?v = raw"
    have shf: "shape_mss (format_time ?v) ?M ?S (ord CHR ''.'') ?F"
      by (rule shape_format_time [OF pos])
    have "normalised raw = raw"
      using normalised_shape_mss [OF shf] eq by (simp add: normalised_def)
    then have "m @ ord CHR '':'' # (sec @ sep # f) = ?M @ ord CHR '':'' # (?S @ ord CHR ''.'' # ?F)"
      using s eq format_time_pos [OF pos] by simp
    then have "sec @ sep # f = ?S @ ord CHR ''.'' # ?F"
      using digits_run_unique [of m ?M "ord CHR '':''" "ord CHR '':''" "sec @ sep # f" "?S @ ord CHR ''.'' # ?F"]
        m digits_format_0d [OF tf(1), of 2] sep_not_digit by (simp add: digits_def)
    moreover have "\<not> is_digit sep" using sep sep_not_digit by auto
    ultimately have "sec = ?S"
      using digits_run_unique [of sec ?S sep "ord CHR ''.''" f ?F]
        sec(1) digits_format_0d [OF tf(2), of 2] sep_not_digit by (simp add: digits_def)
    then have "decimal_value sec = decimal_value ?S"
      by (rule arg_cong)
    moreover have "decimal_value ?S \<le> 59"
      using tf(2,3) by (simp add: decimal_value_format_0d)
    ultimately show False using big by linarith
  qed
  have "decimal_value sec < 10 ^ length sec"
    using sec(1) by (simp add: digits_def decimal_value_bound)
  moreover have "0 < length sec"
    using sec(1) by (simp add: digits_def)
  then have "length sec = 1 \<or> length sec = 2"
    using sec(2) by linarith
  moreover note big
  ultimately have "length sec = 2 \<and> decimal_value sec \<le> 99"
    by auto
  then show ?thesis using parsed no_trip by simp
qed

theorem parse_accepts_seconds_over_59_witness:
  "parse_time (lit ''0:99.000'') = Inr (Some 99000) \<and> format_time 99000 = lit ''01:39.000''
   \<and> format_time 99000 \<noteq> lit ''0:99.000''"
proof -
  have n: "normalised (lit ''0:99.000'') = lit ''0:99.000''"
    by (simp add: normalised_def strip_def strip_by_def replace_def is_space_def spaces_def)
  have sh: "shape_mss (normalised (lit ''0:99.000'')) (lit ''0'') (lit ''99'') (ord CHR ''.'')
      (lit ''000'')"
    unfolding n by (simp add: shape_mss_def digits_def is_digit_0_to_9)
  have v: "decimal_value (lit ''0'') = 0" "decimal_value (lit ''99'') = 99" "decimal_value (pad3 (lit ''000'')) = 0"
    by (simp_all add: decimal_value_def digit_value_0_to_9 pad3_def)
  have big: "60 \<le> decimal_value (lit ''99'')" unfolding v by simp
  have f: "format_time 99000 = lit ''01:39.000''" by code_simp
  show ?thesis
    using parse_accepts_seconds_over_59 [OF sh big] unfolding v f by simp
qed

section \<open>The store and the leaderboard\<close>

lemma py_int_py_str: "py_int (py_str n) = Inr n"
proof (cases "n < 0")
  case False
  then have "digits (py_str n)"
    using digits_of_digits [of "nat n"] digits_of_nonempty [of "nat n"]
    by (simp add: py_str_def digits_def)
  then have "py_int (py_str n) = Inr (decimal_value (py_str n))" by (rule py_int_digits)
  then show ?thesis using False by (simp add: py_str_def decimal_value_digits_of)
next
  case True
  let ?ds = "digits_of (nat (- n))"
  have ds: "digits ?ds"
    using digits_of_digits [of "nat (- n)"] digits_of_nonempty [of "nat (- n)"]
    by (simp add: digits_def)
  have ne: "?ds \<noteq> []" and all: "list_all is_digit ?ds"
    using ds by (simp_all add: digits_def)
  have "\<not> is_int_space (ord CHR ''-'')" by (simp add: is_int_space_def is_space_def spaces_def)
  moreover have "last (ord CHR ''-'' # ?ds) = last ?ds" using ne by simp
  moreover have "last ?ds \<in> set ?ds" using ne by simp
  then have "\<not> is_int_space (last ?ds)"
    using all digit_not_int_space by (auto simp: list_all_iff)
  ultimately have st: "strip_by is_int_space (ord CHR ''-'' # ?ds) = ord CHR ''-'' # ?ds"
    by (intro strip_by_id) simp_all
  have flt: "filter is_digit ?ds = ?ds" using all by (simp add: list_all_iff)
  have "py_int (ord CHR ''-'' # ?ds) = Inr (- decimal_value ?ds)"
    using st flt underscores_ok_digits [OF ne all] by (simp add: py_int_def)
  then show ?thesis using True by (simp add: py_str_def decimal_value_digits_of)
qed

lemma py_str_inject:
  assumes "py_str a = py_str b"
  shows "a = b"
proof -
  have "py_int (py_str a) = py_int (py_str b)" by (simp only: assms)
  then have "(Inr a :: py_error + int) = Inr b" by (simp only: py_int_py_str)
  then show ?thesis by simp
qed

lemma canonical_py_str: "canonical_id (py_str n)"
  by (simp add: canonical_id_def py_int_py_str)

lemma canonical_idD: "canonical_id did \<Longrightarrow> \<exists>n. py_int did = Inr n \<and> py_str n = did"
  by (auto simp: canonical_id_def split: sum.splits)

lemma bind_Inl: "bind (Inl e) f = Inl e"
  by (simp add: bind_def)

lemma insort_key_map:
  "insort_key f (g x) (map g ys) = map g (insort_key (\<lambda>y. f (g y)) x ys)"
  by (induction ys) simp_all

lemma sort_key_map: "sort_key f (map g xs) = map g (sort_key (\<lambda>y. f (g y)) xs)"
  by (induction xs) (simp_all add: insort_key_map)

lemma has_player_handle:
  assumes "has_player st" "t \<in> set (times_table st)"
  shows "\<exists>name. handle_of st (t_discord_id t) = Some name"
proof -
  obtain p where "p \<in> set (players_table st)" "p_discord_id p = t_discord_id t"
    using assms by (auto simp: has_player_def list_all_iff list_ex_iff)
  then have "find (\<lambda>p. p_discord_id p = t_discord_id t) (players_table st) \<noteq> None"
    by (auto simp: find_None_iff)
  then show ?thesis by (auto simp: handle_of_def)
qed

lemma leaderboard_rows_joined:
  assumes "\<And>t. t \<in> set ts \<Longrightarrow> \<exists>name. handle_of st (t_discord_id t) = Some name"
  shows "leaderboard_rows
           (map (\<lambda>t. \<lparr>j_discord_id = t_discord_id t, j_time_ms = t_time_ms t,
                      j_players = map_option p_tm_username
                        (find (\<lambda>p. p_discord_id p = t_discord_id t) (players_table st))\<rparr>) ts)
         = Inr (map (row_of st) ts)"
  using assms
proof (induction ts)
  case Nil
  then show ?case by simp
next
  case (Cons t ts)
  obtain name where name: "handle_of st (t_discord_id t) = Some name"
    using Cons.prems [of t] by auto
  have "leaderboard_rows
           (map (\<lambda>t. \<lparr>j_discord_id = t_discord_id t, j_time_ms = t_time_ms t,
                      j_players = map_option p_tm_username
                        (find (\<lambda>p. p_discord_id p = t_discord_id t) (players_table st))\<rparr>) ts)
         = Inr (map (row_of st) ts)"
    using Cons by simp
  then show ?case
    using name by (simp add: handle_of_def [symmetric] bind_Inr row_of_def)
qed

lemma get_map_leaderboard_ranking:
  assumes "has_player st"
  shows "get_map_leaderboard st m = Inr (map (row_of st) (map_ranking st m))"
proof -
  have "leaderboard_rows (select_times_of_map st m) = Inr (map (row_of st) (map_entries st m))"
    unfolding select_times_of_map_def map_entries_def
    using has_player_handle [OF assms] by (intro leaderboard_rows_joined) simp
  then show ?thesis
    by (simp add: get_map_leaderboard_def bind_Inr sort_key_map row_of_def map_ranking_def)
qed

lemma find_position_rows:
  "find_position (map (row_of st) rows) did i =
     (if did \<in> t_discord_id ` set rows
      then i + int (length (takeWhile (\<lambda>t. t_discord_id t \<noteq> did) rows))
      else 0)"
  by (induction rows arbitrary: i) (auto simp: row_of_def)

lemma get_player_position_rank:
  assumes "has_player st"
  shows "get_player_position st m n = Inr (rank_of (map_ranking st m) (py_str n))"
  by (simp add: get_player_position_def get_map_leaderboard_ranking [OF assms] bind_Inr
      find_position_rows rank_of_def)

lemma rank_of_nonneg: "0 \<le> rank_of ranking did"
  by (simp add: rank_of_def)

lemma points_for_rank_code:
  assumes "0 \<le> rank"
  shows "get_points_for_position rank = Inr (points_for_rank rank)"
proof -
  consider "rank = 0" | "1 \<le> rank" "rank \<le> 10" | "10 < rank"
    using assms by linarith
  then show ?thesis
  proof cases
    case 1
    then show ?thesis by (simp add: get_points_for_position_def points_for_rank_def)
  next
    case 2
    then show ?thesis
      using points_in_table [OF 2] by (simp add: point_values_def points_for_rank_def)
  next
    case 3
    then show ?thesis using points_beyond_table [OF 3] by (simp add: points_for_rank_def)
  qed
qed

lemma same_key_iff: "same_key a b \<longleftrightarrow> time_key a = time_key b"
  by (simp add: same_key_def time_key_def)

lemma upsert_time_players: "players_table (upsert_time st row) = players_table st"
  by (simp add: upsert_time_def)

lemma upsert_time_subset: "set (times_table (upsert_time st row)) \<subseteq> insert row (set (times_table st))"
  by (auto simp: upsert_time_def)

lemma upsert_time_mem: "row \<in> set (times_table (upsert_time st row))"
proof (cases "\<exists>t \<in> set (times_table st). same_key t row")
  case True
  then obtain t where "t \<in> set (times_table st)" "same_key t row" by blast
  then have "row \<in> (\<lambda>t. if same_key t row then row else t) ` set (times_table st)"
    by (intro image_eqI [of _ _ t]) simp_all
  then show ?thesis using True by (simp add: upsert_time_def)
next
  case False
  then show ?thesis by (simp add: upsert_time_def)
qed

lemma upsert_time_keys:
  "map time_key (times_table (upsert_time st row)) =
     (if time_key row \<in> set (map time_key (times_table st))
      then map time_key (times_table st)
      else map time_key (times_table st) @ [time_key row])"
proof (cases "\<exists>t \<in> set (times_table st). same_key t row")
  case True
  have "map time_key (map (\<lambda>t. if same_key t row then row else t) (times_table st))
      = map time_key (times_table st)"
    by (induction "times_table st") (auto simp: same_key_iff)
  moreover have "time_key row \<in> set (map time_key (times_table st))"
  proof -
    obtain t where "t \<in> set (times_table st)" "time_key t = time_key row"
      using True by (auto simp: same_key_iff)
    then show ?thesis by (metis image_eqI set_map)
  qed
  ultimately show ?thesis using True by (simp add: upsert_time_def)
next
  case False
  then have "time_key row \<notin> set (map time_key (times_table st))"
    by (auto simp: same_key_iff)
  then show ?thesis using False by (simp add: upsert_time_def)
qed

lemma upsert_time_keys_distinct:
  assumes "time_keys_distinct st"
  shows "time_keys_distinct (upsert_time st row)"
  using assms upsert_time_keys [of st row]
  by (simp add: time_keys_distinct_def time_key_def [abs_def] split: if_splits)

lemma upsert_time_in_range:
  assumes "times_in_range st" "1000 \<le> t_time_ms row" "t_time_ms row \<le> 600000"
  shows "times_in_range (upsert_time st row)"
  using assms upsert_time_subset [of st row]
  by (auto simp: times_in_range_def list_all_iff)

lemma upsert_time_has_player:
  assumes "has_player st" "\<exists>p \<in> set (players_table st). p_discord_id p = t_discord_id row"
  shows "has_player (upsert_time st row)"
  using assms upsert_time_subset [of st row]
  by (auto simp: has_player_def list_all_iff list_ex_iff upsert_time_players)

lemma upsert_player_times: "times_table (upsert_player st row) = times_table st"
  by (simp add: upsert_player_def)

lemma upsert_player_ids:
  "map p_discord_id (players_table (upsert_player st row)) =
     (if p_discord_id row \<in> set (map p_discord_id (players_table st))
      then map p_discord_id (players_table st)
      else map p_discord_id (players_table st) @ [p_discord_id row])"
proof (cases "\<exists>p \<in> set (players_table st). p_discord_id p = p_discord_id row")
  case True
  have "map p_discord_id (map (\<lambda>p. if p_discord_id p = p_discord_id row then row else p)
          (players_table st)) = map p_discord_id (players_table st)"
    by (induction "players_table st") auto
  moreover have "p_discord_id row \<in> set (map p_discord_id (players_table st))"
  proof -
    obtain p where "p \<in> set (players_table st)" "p_discord_id p = p_discord_id row"
      using True by auto
    then show ?thesis by (metis image_eqI set_map)
  qed
  ultimately show ?thesis using True by (simp add: upsert_player_def)
next
  case False
  then have "p_discord_id row \<notin> set (map p_discord_id (players_table st))" by auto
  then show ?thesis using False by (simp add: upsert_player_def)
qed

lemma has_player_ids:
  "has_player st \<longleftrightarrow>
     (\<forall>t \<in> set (times_table st). t_discord_id t \<in> set (map p_discord_id (players_table st)))"
  by (force simp: has_player_def list_all_iff list_ex_iff)

lemma ids_canonical_ids:
  "ids_canonical st \<longleftrightarrow> (\<forall>d \<in> set (map p_discord_id (players_table st)). canonical_id d)"
  by (auto simp: ids_canonical_def list_all_iff)

lemma upsert_player_has_player:
  assumes "has_player st"
  shows "has_player (upsert_player st row)"
  using assms unfolding has_player_ids upsert_player_times upsert_player_ids [of st row]
  by (auto split: if_splits)

lemma upsert_player_canonical:
  assumes "ids_canonical st" "canonical_id (p_discord_id row)"
  shows "ids_canonical (upsert_player st row)"
  using assms unfolding ids_canonical_ids upsert_player_ids [of st row]
  by (auto split: if_splits)

lemma upsert_player_distinct:
  assumes "player_ids_distinct st"
  shows "player_ids_distinct (upsert_player st row)"
  using assms unfolding player_ids_distinct_def upsert_player_ids [of st row]
  by (auto split: if_splits)

section \<open>Submitting a time and the stores the commands build\<close>


lemma select_player_empty:
  "select_player st did = [] \<longleftrightarrow> did \<notin> p_discord_id ` set (players_table st)"
  by (auto simp: select_player_def filter_empty_conv)



lemma map_in_competition: "m \<in> set (map fst COMPETITION_MAPS) \<longleftrightarrow> 1 \<le> m \<and> m \<le> 5"
  by (auto simp: COMPETITION_MAPS_def)




lemma submit_time_out_of_range:
  assumes "select_player st (py_str author) \<noteq> []" "1 \<le> m" "m \<le> 5"
    "parse_time raw = Inr (Some ms)" "\<not> (1000 \<le> ms \<and> ms \<le> 600000)"
  shows "submit_time st author m raw = (OutOfRange, st)"
  using assms map_in_competition [of m] by (simp add: submit_time_def)

lemma rank_of_present:
  assumes "did \<in> t_discord_id ` set ranking"
  shows "1 \<le> rank_of ranking did"
  using assms by (simp add: rank_of_def)

lemma set_map_ranking: "set (map_ranking st m) = {t \<in> set (times_table st). t_map_number t = m}"
  by (auto simp: map_ranking_def map_entries_def)

lemma submit_time_stored:
  assumes reg: "select_player st (py_str author) \<noteq> []" and m: "1 \<le> m" "m \<le> 5"
    and parsed: "parse_time raw = Inr (Some ms)" and range: "1000 \<le> ms" "ms \<le> 600000"
    and fk: "has_player st"
  defines "row \<equiv> \<lparr>t_discord_id = py_str author, t_map_number = m, t_time_ms = ms\<rparr>"
  shows "submit_time st author m raw =
           (Submitted (p_tm_username (hd (select_player st (py_str author)))) (format_time ms)
              (rank_of (map_ranking (upsert_time st row) m) (py_str author)),
            upsert_time st row)"
    and "get_player_position (upsert_time st row) m author =
           Inr (rank_of (map_ranking (upsert_time st row) m) (py_str author))"
    and "1 \<le> rank_of (map_ranking (upsert_time st row) m) (py_str author)"
proof -
  have "py_str author \<in> p_discord_id ` set (players_table st)"
    using reg by (simp add: select_player_empty)
  then have "\<exists>p \<in> set (players_table st). p_discord_id p = t_discord_id row"
    by (auto simp: row_def)
  then have fk': "has_player (upsert_time st row)"
    using fk by (rule upsert_time_has_player [rotated])
  show pos: "get_player_position (upsert_time st row) m author =
           Inr (rank_of (map_ranking (upsert_time st row) m) (py_str author))"
    by (rule get_player_position_rank [OF fk'])
  have "row \<in> set (map_ranking (upsert_time st row) m)"
    using upsert_time_mem [of row st] by (simp add: set_map_ranking row_def)
  then have "py_str author \<in> t_discord_id ` set (map_ranking (upsert_time st row) m)"
    by (force simp: row_def)
  then show "1 \<le> rank_of (map_ranking (upsert_time st row) m) (py_str author)"
    by (rule rank_of_present)
  show "submit_time st author m raw =
           (Submitted (p_tm_username (hd (select_player st (py_str author)))) (format_time ms)
              (rank_of (map_ranking (upsert_time st row) m) (py_str author)),
            upsert_time st row)"
    using reg m parsed range map_in_competition [of m] pos
    by (simp add: submit_time_def Let_def row_def)
qed

lemma submit_time_writes:
  "snd (submit_time st author m raw) = st
   \<or> (\<exists>ms. parse_time raw = Inr (Some ms) \<and> 1000 \<le> ms \<and> ms \<le> 600000
         \<and> select_player st (py_str author) \<noteq> []
         \<and> snd (submit_time st author m raw) =
             upsert_time st \<lparr>t_discord_id = py_str author, t_map_number = m, t_time_ms = ms\<rparr>)"
  by (auto simp: submit_time_def Let_def split: sum.splits option.splits)

lemma register_player_times: "times_table (snd (register_player st author name)) = times_table st"
  by (simp add: register_player_def upsert_player_times)

lemma run_command_times_in_range:
  assumes "times_in_range st"
  shows "times_in_range (run_command st cmd)"
proof (cases cmd)
  case (Register author name)
  then show ?thesis
    using assms register_player_times [of st author name] by (simp add: times_in_range_def)
next
  case (SubmitTime author m raw)
  then show ?thesis
    using assms submit_time_writes [of st author m raw] upsert_time_in_range [of st]
    by auto
qed (simp_all add: assms)

lemma run_command_has_player:
  assumes "has_player st"
  shows "has_player (run_command st cmd)"
proof (cases cmd)
  case (Register author name)
  then show ?thesis
    using assms upsert_player_has_player [of st] by (simp add: register_player_def)
next
  case (SubmitTime author m raw)
  consider "snd (submit_time st author m raw) = st"
    | ms where "select_player st (py_str author) \<noteq> []"
        "snd (submit_time st author m raw) =
           upsert_time st \<lparr>t_discord_id = py_str author, t_map_number = m, t_time_ms = ms\<rparr>"
    using submit_time_writes [of st author m raw] by blast
  then show ?thesis
  proof cases
    case 1
    then show ?thesis using assms SubmitTime by simp
  next
    case 2
    have "py_str author \<in> p_discord_id ` set (players_table st)"
      using 2(1) by (simp add: select_player_empty)
    then have "\<exists>p \<in> set (players_table st). p_discord_id p =
        t_discord_id \<lparr>t_discord_id = py_str author, t_map_number = m, t_time_ms = ms\<rparr>"
      by auto
    then have "has_player (upsert_time st
        \<lparr>t_discord_id = py_str author, t_map_number = m, t_time_ms = ms\<rparr>)"
      using assms by (rule upsert_time_has_player [rotated])
    then show ?thesis using 2(2) SubmitTime by simp
  qed
qed (simp_all add: assms)

lemma run_command_time_keys:
  assumes "time_keys_distinct st"
  shows "time_keys_distinct (run_command st cmd)"
proof (cases cmd)
  case (Register author name)
  then show ?thesis
    using assms register_player_times [of st author name] by (simp add: time_keys_distinct_def)
next
  case (SubmitTime author m raw)
  then show ?thesis
    using assms submit_time_writes [of st author m raw] upsert_time_keys_distinct [of st]
    by auto
qed (simp_all add: assms)

lemma submit_time_players: "players_table (snd (submit_time st author m raw)) = players_table st"
  using submit_time_writes [of st author m raw] by (auto simp: upsert_time_players)

lemma run_command_canonical:
  assumes "ids_canonical st"
  shows "ids_canonical (run_command st cmd)"
proof (cases cmd)
  case (Register author name)
  then show ?thesis
    using assms upsert_player_canonical [of st] canonical_py_str
    by (simp add: register_player_def)
next
  case (SubmitTime author m raw)
  then show ?thesis
    using assms submit_time_players [of st author m raw] by (simp add: ids_canonical_def)
qed (simp_all add: assms)

lemma run_command_player_ids:
  assumes "player_ids_distinct st"
  shows "player_ids_distinct (run_command st cmd)"
proof (cases cmd)
  case (Register author name)
  then show ?thesis
    using assms upsert_player_distinct [of st] by (simp add: register_player_def)
next
  case (SubmitTime author m raw)
  then show ?thesis
    using assms submit_time_players [of st author m raw] by (simp add: player_ids_distinct_def)
qed (simp_all add: assms)

lemma foldl_invariant:
  assumes "P st" "\<And>s c. P s \<Longrightarrow> P (run_command s c)"
  shows "P (foldl run_command st cmds)"
  using assms(1) by (induction cmds arbitrary: st) (simp_all add: assms(2))

lemma reachable_times_in_range: "times_in_range (run_commands cmds)"
  unfolding run_commands_def
proof (rule foldl_invariant)
  show "times_in_range empty_store" by (simp add: times_in_range_def empty_store_def)
qed (rule run_command_times_in_range)

lemma reachable_has_player: "has_player (run_commands cmds)"
  unfolding run_commands_def
proof (rule foldl_invariant)
  show "has_player empty_store" by (simp add: has_player_def empty_store_def)
qed (rule run_command_has_player)

lemma reachable_time_keys: "time_keys_distinct (run_commands cmds)"
  unfolding run_commands_def
proof (rule foldl_invariant)
  show "time_keys_distinct empty_store" by (simp add: time_keys_distinct_def empty_store_def)
qed (rule run_command_time_keys)

lemma reachable_canonical: "ids_canonical (run_commands cmds)"
  unfolding run_commands_def
proof (rule foldl_invariant)
  show "ids_canonical empty_store" by (simp add: ids_canonical_def empty_store_def)
qed (rule run_command_canonical)

lemma reachable_player_ids: "player_ids_distinct (run_commands cmds)"
  unfolding run_commands_def
proof (rule foldl_invariant)
  show "player_ids_distinct empty_store" by (simp add: player_ids_distinct_def empty_store_def)
qed (rule run_command_player_ids)

section \<open>Claims on submitting a time\<close>


lemma normalised_digits:
  assumes "digits s"
  shows "replace (ord CHR '','') (ord CHR ''.'') (strip s) = s"
proof -
  have "s \<noteq> []" using assms by (simp add: digits_def)
  then have "strip s = s"
    using strip_id [of s] digits_nonspace_ends [OF assms] by simp
  then show ?thesis using digits_no_comma [OF assms] by (simp add: replace_id)
qed

lemma parse_time_digits:
  assumes "digits s"
  shows "parse_time s = Inr (Some (decimal_value s))"
proof -
  have "digits (replace (ord CHR '','') (ord CHR ''.'') (strip s))"
    using assms by (simp only: normalised_digits [OF assms])
  then have "parse_time s = Inr (Some (decimal_value (replace (ord CHR '','') (ord CHR ''.'') (strip s))))"
    by (rule parse_time_raw)
  then show ?thesis by (simp only: normalised_digits [OF assms])
qed

lemma parse_time_clock:
  assumes "shape_mss s m sec sep f"
  shows "parse_time s =
           Inr (Some (decimal_value m * 60000 + decimal_value sec * 1000 + decimal_value (pad3 f)))"
proof -
  have "shape_mss (replace (ord CHR '','') (ord CHR ''.'') (strip s)) m sec sep f"
    using assms by (simp only: normalised_shape_mss [OF assms])
  then show ?thesis by (rule parse_time_mss)
qed

lemma parse_time_example_clock: "parse_time (lit ''1:23.456'') = Inr (Some 83456)"
proof -
  have "shape_mss (lit ''1:23.456'') (lit ''1'') (lit ''23'') (ord CHR ''.'') (lit ''456'')"
    by (simp add: shape_mss_def digits_def is_digit_0_to_9)
  then have "parse_time (lit ''1:23.456'') =
      Inr (Some (decimal_value (lit ''1'') * 60000 + decimal_value (lit ''23'') * 1000
        + decimal_value (pad3 (lit ''456''))))"
    by (rule parse_time_clock)
  moreover have "decimal_value (lit ''1'') * 60000 + decimal_value (lit ''23'') * 1000
        + decimal_value (pad3 (lit ''456'')) = 83456"
    by (simp add: decimal_value_def digit_value_0_to_9 pad3_def)
  ultimately show ?thesis by (simp only:)
qed

lemma parse_time_example_999: "parse_time (lit ''999'') = Inr (Some 999)"
proof -
  have "digits (lit ''999'')" by (simp add: digits_def is_digit_0_to_9)
  then have "parse_time (lit ''999'') = Inr (Some (decimal_value (lit ''999'')))"
    by (rule parse_time_digits)
  moreover have "decimal_value (lit ''999'') = 999"
    by (simp add: decimal_value_def digit_value_0_to_9)
  ultimately show ?thesis by (simp only:)
qed

lemma parse_time_example_600001: "parse_time (lit ''600001'') = Inr (Some 600001)"
proof -
  have "digits (lit ''600001'')" by (simp add: digits_def is_digit_0_to_9)
  then have "parse_time (lit ''600001'') = Inr (Some (decimal_value (lit ''600001'')))"
    by (rule parse_time_digits)
  moreover have "decimal_value (lit ''600001'') = 600001"
    by (simp add: decimal_value_def digit_value_0_to_9)
  ultimately show ?thesis by (simp only:)
qed


lemma py_str_7: "py_str 7 = lit ''7''"
  by (simp add: py_str_def digits_of.simps digit_char_def)



text \<open>
  C5. Every time row of a store that the commands of the bot build from the empty store
  has its \<open>time_ms\<close> between 1000 and 600000. Each command keeps this: \<open>register\<close> writes
  no time row, the reading commands write nothing, and \<open>submit_time\<close> either leaves the
  store as it was or upserts one row whose milliseconds passed the range check before
  the write.
\<close>

theorem stored_times_in_range:
  "(\<forall>t \<in> set (times_table (run_commands cmds)). 1000 \<le> t_time_ms t \<and> t_time_ms t \<le> 600000)
   \<and> (times_in_range st \<longrightarrow> times_in_range (run_command st cmd))
   \<and> (snd (submit_time st author m raw) = st
        \<or> (\<exists>ms. parse_time raw = Inr (Some ms) \<and> 1000 \<le> ms \<and> ms \<le> 600000
              \<and> snd (submit_time st author m raw) =
                  upsert_time st
                    \<lparr>t_discord_id = py_str author, t_map_number = m, t_time_ms = ms\<rparr>))
   \<and> times_table (snd (register_player st author name)) = times_table st"
proof (intro conjI impI)
  show "\<forall>t \<in> set (times_table (run_commands cmds)). 1000 \<le> t_time_ms t \<and> t_time_ms t \<le> 600000"
    using reachable_times_in_range [of cmds] by (simp add: times_in_range_def list_all_iff)
next
  assume "times_in_range st"
  then show "times_in_range (run_command st cmd)" by (rule run_command_times_in_range)
next
  show "snd (submit_time st author m raw) = st
        \<or> (\<exists>ms. parse_time raw = Inr (Some ms) \<and> 1000 \<le> ms \<and> ms \<le> 600000
              \<and> snd (submit_time st author m raw) =
                  upsert_time st
                    \<lparr>t_discord_id = py_str author, t_map_number = m, t_time_ms = ms\<rparr>)"
    using submit_time_writes [of st author m raw] by blast
next
  show "times_table (snd (register_player st author name)) = times_table st"
    by (rule register_player_times)
qed

lemma example_registered:
  "run_commands [Register 7 (lit ''ann'')] =
     \<lparr>players_table = [\<lparr>p_discord_id = lit ''7'', p_tm_username = lit ''ann''\<rparr>],
      times_table = []\<rparr>"
  by (simp add: run_commands_def register_player_def upsert_player_def empty_store_def py_str_7)

lemma example_submit_low:
  "submit_time (run_commands [Register 7 (lit ''ann'')]) 7 1 (lit ''999'')
     = (OutOfRange, run_commands [Register 7 (lit ''ann'')])"
proof -
  have reg: "select_player (run_commands [Register 7 (lit ''ann'')]) (py_str 7) \<noteq> []"
    unfolding example_registered by (simp add: select_player_def py_str_7)
  have low: "\<not> ((1000::int) \<le> 999 \<and> (999::int) \<le> 600000)" by simp
  have m: "(1::int) \<le> 1" "(1::int) \<le> 5" by simp_all
  show ?thesis
    by (rule submit_time_out_of_range [OF reg m parse_time_example_999 low])
qed

lemma example_submit_high:
  "submit_time (run_commands [Register 7 (lit ''ann'')]) 7 1 (lit ''600001'')
     = (OutOfRange, run_commands [Register 7 (lit ''ann'')])"
proof -
  have reg: "select_player (run_commands [Register 7 (lit ''ann'')]) (py_str 7) \<noteq> []"
    unfolding example_registered by (simp add: select_player_def py_str_7)
  have high: "\<not> ((1000::int) \<le> 600001 \<and> (600001::int) \<le> 600000)" by simp
  have m: "(1::int) \<le> 1" "(1::int) \<le> 5" by simp_all
  show ?thesis
    by (rule submit_time_out_of_range [OF reg m parse_time_example_600001 high])
qed

lemma example_submit_stored:
  "snd (submit_time (run_commands [Register 7 (lit ''ann'')]) 7 1 (lit ''1:23.456'')) =
     \<lparr>players_table = [\<lparr>p_discord_id = lit ''7'', p_tm_username = lit ''ann''\<rparr>],
      times_table = [\<lparr>t_discord_id = lit ''7'', t_map_number = 1, t_time_ms = 83456\<rparr>]\<rparr>"
proof -
  let ?st = "run_commands [Register 7 (lit ''ann'')]"
  have reg: "select_player ?st (py_str 7) \<noteq> []"
    unfolding example_registered by (simp add: select_player_def py_str_7)
  have fk: "has_player ?st" by (rule reachable_has_player)
  have m: "(1::int) \<le> 1" "(1::int) \<le> 5" and ok: "(1000::int) \<le> 83456" "(83456::int) \<le> 600000"
    by simp_all
  have "submit_time ?st 7 1 (lit ''1:23.456'') =
      (Submitted (p_tm_username (hd (select_player ?st (py_str 7)))) (format_time 83456)
         (rank_of (map_ranking (upsert_time ?st
            \<lparr>t_discord_id = py_str 7, t_map_number = 1, t_time_ms = 83456\<rparr>) 1) (py_str 7)),
       upsert_time ?st \<lparr>t_discord_id = py_str 7, t_map_number = 1, t_time_ms = 83456\<rparr>)"
    by (rule submit_time_stored(1) [OF reg m parse_time_example_clock ok fk])
  then have "snd (submit_time ?st 7 1 (lit ''1:23.456'')) =
      upsert_time ?st \<lparr>t_discord_id = py_str 7, t_map_number = 1, t_time_ms = 83456\<rparr>"
    by simp
  then show ?thesis
    unfolding example_registered by (simp add: upsert_time_def py_str_7)
qed

theorem stored_times_in_range_witness:
  "run_commands [Register 7 (lit ''ann''), SubmitTime 7 1 (lit ''999''),
       SubmitTime 7 1 (lit ''1:23.456''), SubmitTime 7 1 (lit ''600001'')]
     = \<lparr>players_table = [\<lparr>p_discord_id = lit ''7'', p_tm_username = lit ''ann''\<rparr>],
        times_table = [\<lparr>t_discord_id = lit ''7'', t_map_number = 1, t_time_ms = 83456\<rparr>]\<rparr>
   \<and> times_in_range (run_commands [Register 7 (lit ''ann''), SubmitTime 7 1 (lit ''999''),
       SubmitTime 7 1 (lit ''1:23.456''), SubmitTime 7 1 (lit ''600001'')])
   \<and> fst (submit_time (run_commands [Register 7 (lit ''ann'')]) 7 1 (lit ''999'')) = OutOfRange
   \<and> fst (submit_time (run_commands [Register 7 (lit ''ann'')]) 7 1 (lit ''600001'')) = OutOfRange"
proof -
  let ?reg = "run_commands [Register 7 (lit ''ann'')]"
  let ?one = "\<lparr>players_table = [\<lparr>p_discord_id = lit ''7'', p_tm_username = lit ''ann''\<rparr>],
        times_table = [\<lparr>t_discord_id = lit ''7'', t_map_number = 1, t_time_ms = 83456\<rparr>]\<rparr>"
  let ?cmds = "[Register 7 (lit ''ann''), SubmitTime 7 1 (lit ''999''),
       SubmitTime 7 1 (lit ''1:23.456''), SubmitTime 7 1 (lit ''600001'')]"
  have s1: "run_command ?reg (SubmitTime 7 1 (lit ''999'')) = ?reg"
    by (simp only: run_command.simps example_submit_low snd_conv)
  have s2: "run_command ?reg (SubmitTime 7 1 (lit ''1:23.456'')) = ?one"
    by (simp only: run_command.simps example_submit_stored)
  have reg: "select_player ?one (py_str 7) \<noteq> []"
    by (simp add: select_player_def py_str_7)
  have high: "\<not> ((1000::int) \<le> 600001 \<and> (600001::int) \<le> 600000)" by simp
  have m: "(1::int) \<le> 1" "(1::int) \<le> 5" by simp_all
  have "submit_time ?one 7 1 (lit ''600001'') = (OutOfRange, ?one)"
    by (rule submit_time_out_of_range [OF reg m parse_time_example_600001 high])
  then have s3: "run_command ?one (SubmitTime 7 1 (lit ''600001'')) = ?one"
    by (simp only: run_command.simps snd_conv)
  have "run_commands ?cmds =
      run_command (run_command (run_command ?reg (SubmitTime 7 1 (lit ''999'')))
        (SubmitTime 7 1 (lit ''1:23.456''))) (SubmitTime 7 1 (lit ''600001''))"
    by (simp only: run_commands_def foldl.simps)
  then have run: "run_commands ?cmds = ?one"
    by (simp only: s1 s2 s3)
  have "times_in_range ?one" by (simp add: times_in_range_def)
  then have "times_in_range (run_command ?one (SubmitTime 7 1 (lit ''600001'')))"
    using stored_times_in_range [where st = ?one and cmd = "SubmitTime 7 1 (lit ''600001'')"]
    by blast
  then have "times_in_range (run_commands ?cmds)"
    by (simp only: s3 run)
  then show ?thesis
    using run example_submit_low example_submit_high by (simp only: fst_conv simp_thms)
qed

end
